theory Spec2Isabelle
  imports Complex_Main "HOL-Library.Multiset"
begin

section \<open>Data model of the host (wordAileManager.ts)\<close>

text \<open>
  The TypeScript interfaces become records. Literal union types that the host only ever
  fills with its own literals (the role type, the phase, the winner) are datatypes. The
  decision objects are untyped at run time (\<open>player.lastAction = responseData\<close> stores
  whatever JSON a subscriber sent), so their \<open>type\<close> field is a string that may be absent
  and their \<open>target\<close> field distinguishes \<open>undefined\<close>, \<open>null\<close> and a string.
\<close>

datatype RoleType = Crewmate | Impostor

record PlayerRole =
  type :: RoleType
  room :: int

datatype jsval = Undefined | Null | Str string

text \<open>JavaScript truthiness, on the shapes these fields take.\<close>

fun truthy :: "jsval \<Rightarrow> bool" where
  "truthy (Str s) = (s \<noteq> [])"
| "truthy _ = False"

text \<open>\<open>x || 'skip'\<close> on a target field.\<close>

fun orSkip :: "jsval \<Rightarrow> string" where
  "orSkip (Str s) = (if s = [] then ''skip'' else s)"
| "orSkip _ = ''skip''"

record Decision =
  type_d :: jsval
  target :: jsval
  accusationText :: "string option"
  voteText :: "string option"

record PlayerState =
  publicKey :: string
  role :: PlayerRole
  isAlive :: bool
  lastAction :: "Decision option"
  lastMovement :: "Decision option"
  lastVote :: "Decision option"

datatype Phase = Action | Movement | Voting | Complete

datatype Winner = Crew | Impostors

text \<open>
  A JavaScript \<open>Map\<close> iterates in insertion order, and two loops of the host depend on
  that order, so both maps are association lists: \<open>map_of\<close> is \<open>Map.get\<close>, \<open>mapSet\<close> is
  \<open>Map.set\<close> (a present key keeps its place).
\<close>

record GameState =
  players :: "(string \<times> PlayerState) list"
  phase :: Phase
  currentRound :: int
  actionOrder :: "string list"
  accusedPlayer :: "string option"
  votingResults :: "(string \<times> string) list option"
  isActive :: bool
  winner :: "Winner option"

fun mapSet :: "'k \<Rightarrow> 'v \<Rightarrow> ('k \<times> 'v) list \<Rightarrow> ('k \<times> 'v) list" where
  "mapSet k v [] = [(k, v)]"
| "mapSet k v ((k', v') # m) = (if k' = k then (k, v) # m else (k', v') # mapSet k v m)"

text \<open>
  The host mutates player objects through references obtained from the map. In the
  model, \<open>modify k f\<close> applies the mutation \<open>f\<close> to the object stored under \<open>k\<close>.
\<close>

definition modify ::
  "string \<Rightarrow> (PlayerState \<Rightarrow> PlayerState) \<Rightarrow> (string \<times> PlayerState) list \<Rightarrow> (string \<times> PlayerState) list"
where
  "modify k f ps = map (\<lambda>(k', p). if k' = k then (k', f p) else (k', p)) ps"

definition initializeGameState :: GameState where
  "initializeGameState =
     \<lparr>players = [], phase = Action, currentRound = 1, actionOrder = [],
      accusedPlayer = None, votingResults = None, isActive = True, winner = None\<rparr>"

section \<open>Win evaluation\<close>

definition alivePlayers :: "GameState \<Rightarrow> PlayerState list" where
  "alivePlayers s = filter isAlive (map snd (players s))"

definition aliveImpostors :: "GameState \<Rightarrow> nat" where
  "aliveImpostors s = length (filter (\<lambda>p. type (role p) = Impostor) (alivePlayers s))"

text \<open>\<open>alivePlayers.length - aliveImpostors\<close>; the difference is never negative.\<close>

definition aliveCrew :: "GameState \<Rightarrow> nat" where
  "aliveCrew s = length (alivePlayers s) - aliveImpostors s"

definition checkWinCondition :: "GameState \<Rightarrow> GameState" where
  "checkWinCondition s =
     (if aliveImpostors s = 0 then s\<lparr>isActive := False, winner := Some Crew\<rparr>
      else if aliveCrew s = 0 then s\<lparr>isActive := False, winner := Some Impostors\<rparr>
      else s)"

section \<open>Round resolution (processRound)\<close>

text \<open>
  The kill loop walks the map's entries in order. Each iteration reads the acting player
  and the target from the current state, as the source does through object references.
  The acting player's own \<open>isAlive\<close> flag is not read.
\<close>

definition killStep :: "(string \<times> PlayerState) list \<Rightarrow> string \<Rightarrow> (string \<times> PlayerState) list" where
  "killStep ps k =
     (case map_of ps k of
        None \<Rightarrow> ps
      | Some player \<Rightarrow>
          (case lastAction player of
             None \<Rightarrow> ps
           | Some a \<Rightarrow>
               (case target a of
                  Str t \<Rightarrow>
                    if type_d a = Str ''kill'' \<and> truthy (target a) then
                      (case map_of ps t of
                         None \<Rightarrow> ps
                       | Some tp \<Rightarrow>
                           if isAlive tp \<and> type (role player) = Impostor then
                             if room (role tp) = room (role player)
                             then modify t (\<lambda>p. p\<lparr>isAlive := False\<rparr>) ps
                             else ps
                           else ps)
                    else ps
                | _ \<Rightarrow> ps)))"

definition processKills :: "(string \<times> PlayerState) list \<Rightarrow> (string \<times> PlayerState) list" where
  "processKills ps = fold (\<lambda>k acc. killStep acc k) (map fst ps) ps"

text \<open>
  JavaScript's \<open>%\<close> takes the sign of the dividend. Rooms are integers, so the operator
  is modelled on \<open>int\<close>.
\<close>

definition jsRem :: "int \<Rightarrow> int \<Rightarrow> int" where
  "jsRem a b = sgn a * (\<bar>a\<bar> mod \<bar>b\<bar>)"

definition setRoom :: "int \<Rightarrow> PlayerState \<Rightarrow> PlayerState" where
  "setRoom r p = p\<lparr>role := (role p)\<lparr>room := r\<rparr>\<rparr>"

definition applyMovement :: "PlayerState \<Rightarrow> PlayerState" where
  "applyMovement p =
     (case lastMovement p of
        None \<Rightarrow> p
      | Some m \<Rightarrow>
          if type_d m = Str ''clockwise'' then setRoom (jsRem (room (role p) + 1) 6) p
          else if type_d m = Str ''counterclockwise'' then setRoom (jsRem (room (role p) + 5) 6) p
          else p)"

definition processMovements :: "(string \<times> PlayerState) list \<Rightarrow> (string \<times> PlayerState) list" where
  "processMovements ps = map (\<lambda>(k, p). (k, applyMovement p)) ps"

definition clearRecords :: "(string \<times> PlayerState) list \<Rightarrow> (string \<times> PlayerState) list" where
  "clearRecords ps = map (\<lambda>(k, p). (k, p\<lparr>lastAction := None, lastMovement := None\<rparr>)) ps"

text \<open>The three loops of \<open>processRound\<close>, before the win check.\<close>

definition resolveRound :: "GameState \<Rightarrow> GameState" where
  "resolveRound s = s\<lparr>players := clearRecords (processMovements (processKills (players s)))\<rparr>"

section \<open>Vote resolution (the tally of processVotes)\<close>

definition countVotes :: "(string \<times> string) list \<Rightarrow> (string \<times> nat) list" where
  "countVotes vr =
     fold (\<lambda>(voter, tgt) votes.
             mapSet tgt ((case map_of votes tgt of None \<Rightarrow> 0 | Some c \<Rightarrow> c) + 1) votes)
          vr [(''skip'', 0)]"

definition highestVote :: "(string \<times> nat) list \<Rightarrow> nat \<times> string option" where
  "highestVote votes =
     fold (\<lambda>(tgt, count) (maxVotes, ejected).
             if count > maxVotes then (count, Some tgt) else (maxVotes, ejected))
          votes (0, None)"

definition ejectPlayer :: "string option \<Rightarrow> GameState \<Rightarrow> GameState" where
  "ejectPlayer ejected s =
     (case ejected of
        None \<Rightarrow> s
      | Some e \<Rightarrow>
          if e \<noteq> [] \<and> e \<noteq> ''skip'' then
            (case map_of (players s) e of
               None \<Rightarrow> s
             | Some player \<Rightarrow> s\<lparr>players := modify e (\<lambda>p. p\<lparr>isAlive := False\<rparr>) (players s)\<rparr>)
          else s)"

text \<open>The body of \<open>processVotes\<close> between its guard and the win check.\<close>

definition resolveVotes :: "(string \<times> string) list \<Rightarrow> GameState \<Rightarrow> GameState" where
  "resolveVotes vr s = ejectPlayer (snd (highestVote (countVotes vr))) s"

section \<open>Double arithmetic\<close>

text \<open>
  JavaScript numbers are IEEE 754 doubles. A double is a rational number, and the result
  of a multiplication is the exact product rounded to the nearest double, a tie going to
  the even significand. \<open>binade x\<close> is the exponent \<open>e\<close> with \<open>2^e \<le> x < 2^(e + 1)\<close>,
  not below \<open>-1022\<close> (the subnormal range) and not above 1023; a double of that binade is
  a multiple of \<open>2^(e - 52)\<close>. Overflow to infinity is not modelled: the host multiplies
  a number below 1 by the length of a short array.
\<close>

definition pow2 :: "int \<Rightarrow> rat" where
  "pow2 e = (if 0 \<le> e then 2 ^ nat e else 1 / 2 ^ nat (- e))"

fun binadeUp :: "nat \<Rightarrow> rat \<Rightarrow> int" where
  "binadeUp 0 x = 0"
| "binadeUp (Suc n) x = (if x < 2 then 0 else binadeUp n (x / 2) + 1)"

fun binadeDown :: "nat \<Rightarrow> rat \<Rightarrow> int" where
  "binadeDown 0 x = 0"
| "binadeDown (Suc n) x = (if 1 \<le> x then 0 else binadeDown n (x * 2) - 1)"

definition binade :: "rat \<Rightarrow> int" where
  "binade x = (if 1 \<le> x then binadeUp 1023 x else binadeDown 1022 x)"

definition roundHalfEven :: "rat \<Rightarrow> int" where
  "roundHalfEven m =
     (let n = \<lfloor>m\<rfloor>; f = m - of_int n
      in if f < 1 / 2 then n else if 1 / 2 < f then n + 1 else if even n then n else n + 1)"

definition roundDouble :: "rat \<Rightarrow> rat" where
  "roundDouble x = of_int (roundHalfEven (x / pow2 (binade x - 52))) * pow2 (binade x - 52)"

text \<open>The doubles from 0 on are the numbers that rounding leaves alone.\<close>

definition isDouble :: "rat \<Rightarrow> bool" where
  "isDouble x \<longleftrightarrow> 0 \<le> x \<and> roundDouble x = x"

text \<open>The operator \<open>*\<close>.\<close>

definition jsMul :: "rat \<Rightarrow> rat \<Rightarrow> rat" where
  "jsMul x y = (if 0 \<le> x * y then roundDouble (x * y) else - roundDouble (- (x * y)))"

section \<open>Views and the fallback policy (getPlayerView, makeBotDecision)\<close>

record PlayerView =
  publicKey_v :: string
  isAlive_v :: bool
  room_v :: int
  role_v :: "RoleType option"
  lastAction_v :: "Decision option"
  lastVote_v :: "Decision option"

record View =
  phase_v :: Phase
  currentRound_v :: int
  actionOrder_v :: "string list"
  accusedPlayer_v :: "string option"
  yourRole :: "PlayerRole option"
  players_v :: "PlayerView list"
  winner_v :: "Winner option"

definition getPlayerView :: "GameState \<Rightarrow> string \<Rightarrow> View" where
  "getPlayerView s k =
     (let player = map_of (players s) k;
          isImpostor = (case player of None \<Rightarrow> False | Some p \<Rightarrow> type (role p) = Impostor)
      in \<lparr>phase_v = phase s,
          currentRound_v = currentRound s,
          actionOrder_v = actionOrder s,
          accusedPlayer_v = accusedPlayer s,
          yourRole = map_option role player,
          players_v = map (\<lambda>(k', p).
                        \<lparr>publicKey_v = publicKey p,
                         isAlive_v = isAlive p,
                         room_v = room (role p),
                         role_v = (if isImpostor then Some (type (role p)) else None),
                         lastAction_v = lastAction p,
                         lastVote_v = lastVote p\<rparr>) (players s),
          winner_v = winner s\<rparr>)"

datatype error = TypeError

definition decision :: "jsval \<Rightarrow> jsval \<Rightarrow> string option \<Rightarrow> Decision" where
  "decision t tg vt = \<lparr>type_d = t, target = tg, accusationText = None, voteText = vt\<rparr>"

definition movements :: "string list" where
  "movements = [''stay'', ''clockwise'', ''counterclockwise'']"

text \<open>
  \<open>arr[Math.floor(u * arr.length)]\<close>: an index outside the array reads \<open>undefined\<close>.
\<close>

definition randomPick :: "rat \<Rightarrow> 'a list \<Rightarrow> 'a option" where
  "randomPick u xs =
     (let i = \<lfloor>jsMul u (of_nat (length xs))\<rfloor>
      in if 0 \<le> i \<and> i < int (length xs) then Some (xs ! nat i) else None)"

text \<open>
  \<open>Math.random()\<close> is an input of the model: \<open>u1\<close> is the first draw of a call and \<open>u2\<close>
  the second. The literals \<open>0.3\<close> and \<open>0.7\<close> are the doubles nearest to 3/10 and 7/10.
  Reading \<open>.type\<close> of an absent \<open>yourRole\<close>, or \<open>.publicKey\<close> of an absent
  target, raises a TypeError.
\<close>

definition makeBotDecision :: "View \<Rightarrow> rat \<Rightarrow> rat \<Rightarrow> error + Decision" where
  "makeBotDecision gameState u1 u2 =
     (case yourRole gameState of
        None \<Rightarrow> Inl TypeError
      | Some yr \<Rightarrow>
          (case phase_v gameState of
             Action \<Rightarrow>
               if type yr = Impostor \<and> u1 < roundDouble (3 / 10) then
                 (let potentialTargets =
                        filter (\<lambda>p. isAlive_v p \<and> room_v p = room yr \<and> role_v p = None)
                               (players_v gameState)
                  in if length potentialTargets > 0 then
                       (case randomPick u2 potentialTargets of
                          None \<Rightarrow> Inl TypeError
                        | Some tgt \<Rightarrow> Inr (decision (Str ''kill'') (Str (publicKey_v tgt)) None))
                     else Inr (decision (Str ''pass'') Undefined None))
               else Inr (decision (Str ''pass'') Undefined None)
           | Movement \<Rightarrow>
               Inr (decision (case randomPick u1 movements of None \<Rightarrow> Undefined | Some m \<Rightarrow> Str m)
                             Undefined None)
           | Voting \<Rightarrow>
               if u1 < roundDouble (7 / 10) then
                 Inr (decision Undefined
                        (case accusedPlayer_v gameState of None \<Rightarrow> Undefined | Some a \<Rightarrow> Str a)
                        (Some ''Suspicious behavior''))
               else Inr (decision Undefined Null (Some ''Not enough evidence''))
           | Complete \<Rightarrow> Inr (decision (Str ''pass'') Undefined None)))"

section \<open>The environment of the host\<close>

text \<open>
  What the host takes from outside is a parameter of the model: the subscriber list of
  \<open>fxnClient.getSubscribers()\<close>, the JSON body a subscriber answers with (\<open>None\<close> when
  the request is rejected, times out or is not \<open>ok\<close>), and the values of \<open>Math.random()\<close>:
  the two draws of a bot's decision, the draw of each player's initial room, and the
  order in which \<open>sort(() => Math.random() - 0.5)\<close> leaves a list. A draw is a double,
  that is, a rational number.
\<close>

record Subscriber =
  subscriber :: string
  status :: string

record Env =
  subscribers :: "Subscriber list"
  reply :: "string \<Rightarrow> Decision option"
  botRandom :: "string \<Rightarrow> rat \<times> rat"
  roomRandom :: "nat \<Rightarrow> rat"
  shuffle :: "string list \<Rightarrow> string list"

section \<open>Collecting decisions (broadcastGameState)\<close>

definition setVote :: "string \<Rightarrow> jsval \<Rightarrow> GameState \<Rightarrow> GameState" where
  "setVote k tg s = s\<lparr>votingResults := map_option (mapSet k (orSkip tg)) (votingResults s)\<rparr>"

text \<open>The handler of one fulfilled reply, from \<open>const player = ...\<close> to the end of the switch.\<close>

definition handleResponse :: "GameState \<Rightarrow> string \<Rightarrow> Decision \<Rightarrow> GameState" where
  "handleResponse s k responseData =
     (case map_of (players s) k of
        None \<Rightarrow> s
      | Some player \<Rightarrow>
          if \<not> isAlive player then s
          else
            (case phase s of
               Action \<Rightarrow>
                 if truthy (type_d responseData) then
                   (let responseData' =
                          (if type_d responseData = Str ''kill'' \<and> type (role player) \<noteq> Impostor
                           then responseData\<lparr>type_d := Str ''pass''\<rparr> else responseData)
                    in s\<lparr>players := modify k (\<lambda>p. p\<lparr>lastAction := Some responseData'\<rparr>) (players s)\<rparr>)
                 else s
             | Movement \<Rightarrow>
                 if truthy (type_d responseData) then
                   s\<lparr>players := modify k (\<lambda>p. p\<lparr>lastMovement := Some responseData\<rparr>) (players s)\<rparr>
                 else s
             | Voting \<Rightarrow>
                 if target responseData \<noteq> Undefined then
                   setVote k (target responseData)
                     (s\<lparr>players := modify k (\<lambda>p. p\<lparr>lastVote := Some responseData\<rparr>) (players s)\<rparr>)
                 else s
             | Complete \<Rightarrow> s))"

definition subscriberStep :: "Env \<Rightarrow> Subscriber \<Rightarrow> GameState \<Rightarrow> GameState" where
  "subscriberStep env sub s =
     (if status sub = ''active'' then
        (case reply env (subscriber sub) of
           None \<Rightarrow> s
         | Some responseData \<Rightarrow> handleResponse s (subscriber sub) responseData)
      else s)"

definition storeBotDecision :: "string \<Rightarrow> Decision \<Rightarrow> GameState \<Rightarrow> GameState" where
  "storeBotDecision k botDecision s =
     (case phase s of
        Action \<Rightarrow> s\<lparr>players := modify k (\<lambda>p. p\<lparr>lastAction := Some botDecision\<rparr>) (players s)\<rparr>
      | Movement \<Rightarrow> s\<lparr>players := modify k (\<lambda>p. p\<lparr>lastMovement := Some botDecision\<rparr>) (players s)\<rparr>
      | Voting \<Rightarrow>
          setVote k (target botDecision)
            (s\<lparr>players := modify k (\<lambda>p. p\<lparr>lastVote := Some botDecision\<rparr>) (players s)\<rparr>)
      | Complete \<Rightarrow> s)"

definition botStep :: "Env \<Rightarrow> GameState \<Rightarrow> string \<Rightarrow> error + GameState" where
  "botStep env s k =
     (case map_of (players s) k of
        None \<Rightarrow> Inr s
      | Some player \<Rightarrow>
          if take 4 k = ''bot-'' \<and> isAlive player then
            (case makeBotDecision (getPlayerView s k) (fst (botRandom env k)) (snd (botRandom env k)) of
               Inl e \<Rightarrow> Inl e
             | Inr botDecision \<Rightarrow> Inr (storeBotDecision k botDecision s))
          else Inr s)"

fun botLoop :: "Env \<Rightarrow> GameState \<Rightarrow> string list \<Rightarrow> error + GameState" where
  "botLoop env s [] = Inr s"
| "botLoop env s (k # ks) =
     (case botStep env s k of Inl e \<Rightarrow> Inl e | Inr s' \<Rightarrow> botLoop env s' ks)"

text \<open>
  The bot loop only waits on promises that are already resolved, so it is over before
  any reply of the network is handled. The replies are then handled one at a time; the
  model takes them in the order of the subscriber list.
\<close>

definition broadcastGameState :: "Env \<Rightarrow> GameState \<Rightarrow> error + GameState" where
  "broadcastGameState env s =
     (case botLoop env s (map fst (players s)) of
        Inl e \<Rightarrow> Inl e
      | Inr s' \<Rightarrow> Inr (fold (subscriberStep env) (subscribers env) s'))"

section \<open>The phase machine\<close>

definition shuffleActionOrder :: "Env \<Rightarrow> GameState \<Rightarrow> string list" where
  "shuffleActionOrder env s =
     shuffle env
       (filter (\<lambda>key. case map_of (players s) key of None \<Rightarrow> False | Some p \<Rightarrow> isAlive p)
               (map fst (players s)))"

definition startRound :: "Env \<Rightarrow> GameState \<Rightarrow> error + GameState" where
  "startRound env s =
     (if \<not> isActive s then Inr s
      else (let s1 = s\<lparr>phase := Action\<rparr>;
                s2 = s1\<lparr>actionOrder := shuffleActionOrder env s1\<rparr>
            in broadcastGameState env s2))"

definition startMovementPhase :: "Env \<Rightarrow> GameState \<Rightarrow> error + GameState" where
  "startMovementPhase env s = broadcastGameState env (s\<lparr>phase := Movement\<rparr>)"

definition startVotingPhase :: "Env \<Rightarrow> string \<Rightarrow> GameState \<Rightarrow> error + GameState" where
  "startVotingPhase env accused s =
     broadcastGameState env
       (s\<lparr>phase := Voting, accusedPlayer := Some accused, votingResults := Some []\<rparr>)"

definition processVotes :: "Env \<Rightarrow> GameState \<Rightarrow> error + GameState" where
  "processVotes env s =
     (case votingResults s of
        None \<Rightarrow> Inr s
      | Some vr \<Rightarrow>
          if accusedPlayer s = None \<or> accusedPlayer s = Some [] then Inr s
          else (let s1 = checkWinCondition (resolveVotes vr s)
                in if isActive s1 then startRound env s1 else Inr s1))"

definition processRound :: "Env \<Rightarrow> GameState \<Rightarrow> error + GameState" where
  "processRound env s =
     (let s1 = checkWinCondition (resolveRound s)
      in if isActive s1 then startRound env (s1\<lparr>currentRound := currentRound s1 + 1\<rparr>)
         else broadcastGameState env s1)"

section \<open>Role assignment and start of the game\<close>

definition newPlayer :: "Env \<Rightarrow> nat \<Rightarrow> string \<Rightarrow> PlayerState" where
  "newPlayer env index k =
     \<lparr>publicKey = k,
      role = \<lparr>type = (if index < 2 then Impostor else Crewmate),
              room = \<lfloor>jsMul (roomRandom env index) 6\<rfloor>\<rparr>,
      isAlive = True, lastAction = None, lastMovement = None, lastVote = None\<rparr>"

definition assignRoles :: "Env \<Rightarrow> string list \<Rightarrow> GameState \<Rightarrow> GameState" where
  "assignRoles env candidates s =
     s\<lparr>players :=
         fold (\<lambda>(index, k) m. mapSet k (newPlayer env index k) m)
              (enumerate 0 (shuffle env candidates)) (players s)\<rparr>"

definition digits :: string where
  "digits = ''0123456789''"

fun string_of_nat :: "nat \<Rightarrow> string" where
  "string_of_nat n =
     (if n < 10 then [digits ! n] else string_of_nat (n div 10) @ [digits ! (n mod 10)])"

function padBots :: "string list \<Rightarrow> string list" where
  "padBots activePlayers =
     (if length activePlayers < 6
      then padBots (activePlayers @ [''bot-'' @ string_of_nat (length activePlayers + 1)])
      else activePlayers)"
  by pat_completeness auto
termination
  by (relation "measure (\<lambda>xs. 6 - length xs)") auto

definition activeSubscribers :: "Env \<Rightarrow> string list" where
  "activeSubscribers env = map subscriber (filter (\<lambda>sub. status sub = ''active'') (subscribers env))"

definition startGame :: "Env \<Rightarrow> GameState \<Rightarrow> error + GameState" where
  "startGame env s =
     (let s1 = assignRoles env (padBots (activeSubscribers env)) s;
          s2 = s1\<lparr>actionOrder := shuffleActionOrder env s1\<rparr>
      in startRound env s2)"

section \<open>The participant's own check (validateAction of the client)\<close>

text \<open>
  \<open>gameState.players[0].publicKey\<close> raises a TypeError on an empty player list, and so
  does \<open>gameState.yourRole.room\<close> when \<open>yourRole\<close> is absent and a record with the
  target's key is reached.
\<close>

definition sameRoomAlive :: "View \<Rightarrow> string \<Rightarrow> error + bool" where
  "sameRoomAlive gameState tgt =
     (if list_ex (\<lambda>p. publicKey_v p = tgt) (players_v gameState) then
        (case yourRole gameState of
           None \<Rightarrow> Inl TypeError
         | Some yr \<Rightarrow>
             Inr (list_ex (\<lambda>p. publicKey_v p = tgt \<and> room_v p = room yr \<and> isAlive_v p)
                          (players_v gameState)))
      else Inr False)"

definition validateAction :: "string \<Rightarrow> string \<Rightarrow> View \<Rightarrow> error + bool" where
  "validateAction action tgt gameState =
     (case players_v gameState of
        [] \<Rightarrow> Inl TypeError
      | p0 # rest \<Rightarrow>
          if tgt = publicKey_v p0 then Inr False
          else if action = ''kill'' then
            (case find (\<lambda>p. publicKey_v p = tgt) (players_v gameState) of
               Some targetPlayer \<Rightarrow>
                 if role_v targetPlayer = Some Impostor then Inr False
                 else (case sameRoomAlive gameState tgt of
                         Inl e \<Rightarrow> Inl e
                       | Inr found \<Rightarrow> if \<not> found then Inr False else Inr True)
             | None \<Rightarrow>
                 (case sameRoomAlive gameState tgt of
                    Inl e \<Rightarrow> Inl e
                  | Inr found \<Rightarrow> if \<not> found then Inr False else Inr True))
          else Inr True)"

section \<open>Example states\<close>

definition seat :: "string \<Rightarrow> RoleType \<Rightarrow> int \<Rightarrow> bool \<Rightarrow> string \<times> PlayerState" where
  "seat k t r a =
     (k, \<lparr>publicKey = k, role = \<lparr>type = t, room = r\<rparr>, isAlive = a,
          lastAction = None, lastMovement = None, lastVote = None\<rparr>)"

definition bothDead :: GameState where
  "bothDead = initializeGameState\<lparr>players := [seat ''a'' Impostor 0 False, seat ''b'' Crewmate 1 False]\<rparr>"

definition crewGone :: GameState where
  "crewGone = initializeGameState\<lparr>players := [seat ''a'' Impostor 0 True, seat ''b'' Crewmate 1 False]\<rparr>"

definition impostorsGone :: GameState where
  "impostorsGone = initializeGameState\<lparr>players := [seat ''a'' Impostor 0 False, seat ''b'' Crewmate 1 True]\<rparr>"

definition bothLeft :: GameState where
  "bothLeft = initializeGameState\<lparr>players := [seat ''a'' Impostor 0 True, seat ''b'' Crewmate 1 True]\<rparr>"

definition quietEnv :: Env where
  "quietEnv = \<lparr>subscribers = [], reply = (\<lambda>k. None), botRandom = (\<lambda>k. (0, 0)),
               roomRandom = (\<lambda>i. 1 / 2), shuffle = (\<lambda>xs. xs)\<rparr>"

definition killOf :: "string \<Rightarrow> Decision" where
  "killOf t = decision (Str ''kill'') (Str t) None"

definition voteFor :: "string \<Rightarrow> Decision" where
  "voteFor t = decision Undefined (Str t) (Some ''Suspicious behavior'')"

definition act :: "Decision \<Rightarrow> string \<times> PlayerState \<Rightarrow> string \<times> PlayerState" where
  "act d kp = (fst kp, (snd kp)\<lparr>lastAction := Some d\<rparr>)"

definition move :: "string \<Rightarrow> string \<times> PlayerState \<Rightarrow> string \<times> PlayerState" where
  "move m kp = (fst kp, (snd kp)\<lparr>lastMovement := Some (decision (Str m) Undefined None)\<rparr>)"

definition voted :: "string \<Rightarrow> string \<times> PlayerState \<Rightarrow> string \<times> PlayerState" where
  "voted t kp = (fst kp, (snd kp)\<lparr>lastVote := Some (voteFor t)\<rparr>)"


text \<open>Voting phase about to expire: two voters, one vote each for the other.\<close>

definition votingTie :: GameState where
  "votingTie = initializeGameState
     \<lparr>players := [voted ''b'' (seat ''a'' Impostor 0 True), voted ''a'' (seat ''b'' Crewmate 0 True),
                  seat ''c'' Crewmate 1 True, seat ''d'' Impostor 2 True],
      phase := Voting, accusedPlayer := Some ''a'',
      votingResults := Some [(''a'', ''b''), (''b'', ''a'')]\<rparr>"

definition midRound :: GameState where
  "midRound = initializeGameState
     \<lparr>players := [move ''clockwise'' (act (killOf ''b'') (voted ''c'' (seat ''a'' Impostor 5 True))),
                  move ''counterclockwise'' (seat ''b'' Crewmate 5 True),
                  move ''stay'' (seat ''c'' Crewmate 0 True),
                  seat ''bot-4'' Impostor 3 True],
      phase := Movement\<rparr>"

definition pass :: Decision where
  "pass = decision (Str ''pass'') Undefined None"

text \<open>Action phase: a bot impostor shares room 2 with a live crewmate.\<close>

definition botImpostor :: GameState where
  "botImpostor = initializeGameState
     \<lparr>players := [seat ''bot-1'' Impostor 2 True, seat ''alice'' Crewmate 2 True,
                  seat ''bot-3'' Crewmate 4 True]\<rparr>"

text \<open>Both impostors, \<open>a\<close> and \<open>b\<close>, are in room 2; \<open>a\<close> is a subscriber.\<close>

definition twoImpostors :: GameState where
  "twoImpostors = initializeGameState
     \<lparr>players := [seat ''c'' Crewmate 1 True, seat ''a'' Impostor 2 True,
                  seat ''b'' Impostor 2 True, seat ''d'' Crewmate 4 True]\<rparr>"

definition answering :: "string \<Rightarrow> Decision \<Rightarrow> Env" where
  "answering k d = quietEnv
     \<lparr>subscribers := [\<lparr>subscriber = k, status = ''active''\<rparr>],
      reply := (\<lambda>k'. if k' = k then Some d else None)\<rparr>"

text \<open>One round of the host: action phase, movement phase, resolution.\<close>

definition playRound :: "Env \<Rightarrow> GameState \<Rightarrow> error + GameState" where
  "playRound env s =
     (case startRound env s of
        Inl e \<Rightarrow> Inl e
      | Inr s1 \<Rightarrow>
          (case startMovementPhase quietEnv s1 of
             Inl e \<Rightarrow> Inl e
           | Inr s2 \<Rightarrow> processRound quietEnv s2))"


definition voteBook :: "GameState \<Rightarrow> string option \<times> (string \<times> string) list option" where
  "voteBook s = (accusedPlayer s, votingResults s)"

definition lastVotes :: "GameState \<Rightarrow> (string \<times> Decision option) list" where
  "lastVotes s = map (\<lambda>(k, p). (k, lastVote p)) (players s)"

definition impostorSeats :: "GameState \<Rightarrow> string list" where
  "impostorSeats s = map fst (filter (\<lambda>(k, p). type (role p) = Impostor) (players s))"

text \<open>The subscriber list names \<open>alice\<close> twice.\<close>

definition twiceListed :: Env where
  "twiceListed = quietEnv
     \<lparr>subscribers := [\<lparr>subscriber = ''alice'', status = ''active''\<rparr>,
                      \<lparr>subscriber = ''alice'', status = ''active''\<rparr>,
                      \<lparr>subscriber = ''bob'', status = ''active''\<rparr>]\<rparr>"

text \<open>Two subscribers, one of them inactive; the shuffle reverses the list.\<close>

definition reversing :: Env where
  "reversing = quietEnv
     \<lparr>subscribers := [\<lparr>subscriber = ''alice'', status = ''active''\<rparr>,
                      \<lparr>subscriber = ''bob'', status = ''inactive''\<rparr>],
      shuffle := rev\<rparr>"

definition aliveFlags :: "GameState \<Rightarrow> (string \<times> bool) list" where
  "aliveFlags s = map (\<lambda>(k, p). (k, isAlive p)) (players s)"

section \<open>Notions used in the statements\<close>

text \<open>The number of live members of a faction, counted on the map's entries.\<close>

definition aliveOf :: "RoleType \<Rightarrow> GameState \<Rightarrow> nat" where
  "aliveOf t s = length (filter (\<lambda>(k, p). isAlive p \<and> type (role p) = t) (players s))"

text \<open>
  \<open>killTarget ps k\<close> is the target that the kill loop's iteration for \<open>k\<close> marks dead in
  \<open>ps\<close>, if it marks one.
\<close>

definition killTarget :: "(string \<times> PlayerState) list \<Rightarrow> string \<Rightarrow> string option" where
  "killTarget ps k =
     (case map_of ps k of
        None \<Rightarrow> None
      | Some player \<Rightarrow>
          (case lastAction player of
             None \<Rightarrow> None
           | Some a \<Rightarrow>
               (case target a of
                  Str t \<Rightarrow>
                    if type_d a = Str ''kill'' \<and> t \<noteq> [] \<and> type (role player) = Impostor then
                      (case map_of ps t of
                         None \<Rightarrow> None
                       | Some tp \<Rightarrow>
                           if isAlive tp \<and> room (role tp) = room (role player) then Some t else None)
                    else None
                | _ \<Rightarrow> None)))"

abbreviation dead :: "PlayerState \<Rightarrow> PlayerState" where
  "dead \<equiv> (\<lambda>p. p\<lparr>isAlive := False\<rparr>)"

text \<open>
  What collecting decisions must leave alone: who sits in the game, with which key, role,
  room and alive flag, and every field of the state other than the decision slots (the
  votes may grow while the phase is \<open>voting\<close>).
\<close>

definition seats :: "(string \<times> PlayerState) list \<Rightarrow> (string \<times> string \<times> PlayerRole \<times> bool) list" where
  "seats ps = map (\<lambda>(k, p). (k, publicKey p, role p, isAlive p)) ps"

definition sameGame :: "GameState \<Rightarrow> GameState \<Rightarrow> bool" where
  "sameGame s s' \<longleftrightarrow>
     seats (players s') = seats (players s) \<and> phase s' = phase s
     \<and> currentRound s' = currentRound s \<and> actionOrder s' = actionOrder s
     \<and> accusedPlayer s' = accusedPlayer s \<and> isActive s' = isActive s \<and> winner s' = winner s
     \<and> (phase s \<noteq> Voting \<longrightarrow> votingResults s' = votingResults s)"

text \<open>Two player maps with the same \<open>exceptAlive\<close> differ in alive flags at most.\<close>

definition exceptAlive :: "(string \<times> PlayerState) list \<Rightarrow> (string \<times> PlayerState) list" where
  "exceptAlive ps = map (\<lambda>(k, p). (k, p\<lparr>isAlive := True\<rparr>)) ps"

text \<open>The ring has six rooms, numbered from 0.\<close>

definition inRange :: "int \<Rightarrow> bool" where
  "inRange r \<longleftrightarrow> 0 \<le> r \<and> r < 6"

definition roomsInRange :: "GameState \<Rightarrow> bool" where
  "roomsInRange s = list_all (\<lambda>(k, p). inRange (room (role p))) (players s)"

text \<open>The voters recorded in \<open>votingResults\<close> are live players of the game.\<close>

definition isAliveKey :: "(string \<times> PlayerState) list \<Rightarrow> string \<Rightarrow> bool" where
  "isAliveKey ps k = (case map_of ps k of None \<Rightarrow> False | Some p \<Rightarrow> isAlive p)"

definition votersAlive :: "GameState \<Rightarrow> bool" where
  "votersAlive s =
     (case votingResults s of
        None \<Rightarrow> False
      | Some vr \<Rightarrow> list_all (\<lambda>(voter, t). isAliveKey (players s) voter) vr)"

text \<open>
  The room a movement leads to on the ring of six rooms, in the words of the
  specification: one room on for \<open>clockwise\<close>, one room back for \<open>counterclockwise\<close>,
  the same room otherwise.
\<close>

definition ringMove :: "PlayerState \<Rightarrow> int" where
  "ringMove p =
     (case lastMovement p of
        None \<Rightarrow> room (role p)
      | Some m \<Rightarrow>
          if type_d m = Str ''clockwise'' then (room (role p) + 1) mod 6
          else if type_d m = Str ''counterclockwise'' then (room (role p) - 1) mod 6
          else room (role p))"

definition rooms :: "GameState \<Rightarrow> (string \<times> int) list" where
  "rooms s = map (\<lambda>(k, p). (k, room (role p))) (players s)"

definition seatKeys :: "GameState \<Rightarrow> string list" where
  "seatKeys s = map fst (players s)"

text \<open>\<open>Math.random()\<close> returns a double in \<open>[0, 1)\<close>.\<close>

definition drawsInUnit :: "Env \<Rightarrow> bool" where
  "drawsInUnit env \<longleftrightarrow> (\<forall>i. isDouble (roomRandom env i) \<and> roomRandom env i < 1)"

section \<open>Win evaluation: the order of the two tests\<close>

lemma count_impostors:
  "length (filter (\<lambda>p. type (role p) = Impostor) (filter isAlive (map snd ps)))
   = length (filter (\<lambda>(k, p). isAlive p \<and> type (role p) = Impostor) ps)"
  by (induction ps) auto

lemma count_alive_split:
  "length (filter isAlive (map snd ps))
   = length (filter (\<lambda>(k, p). isAlive p \<and> type (role p) = Impostor) ps)
     + length (filter (\<lambda>(k, p). isAlive p \<and> type (role p) = Crewmate) ps)"
proof (induction ps)
  case Nil
  show ?case by simp
next
  case (Cons kp ps)
  obtain k p where kp: "kp = (k, p)" by (cases kp)
  show ?case using Cons.IH by (cases "type (role p)") (simp_all add: kp)
qed

lemma aliveImpostors_aliveOf: "aliveImpostors s = aliveOf Impostor s"
  unfolding aliveImpostors_def alivePlayers_def aliveOf_def by (rule count_impostors)

lemma aliveCrew_aliveOf: "aliveCrew s = aliveOf Crewmate s"
  unfolding aliveCrew_def aliveImpostors_def alivePlayers_def aliveOf_def
    count_impostors count_alive_split [of "players s"]
  by arith

text \<open>
  C3, as the claim states it, fails where no member of either faction is alive: the crew
  test comes first, so the crew wins although no crew member is alive.
\<close>

theorem C3_counterexample:
  "aliveOf Crewmate bothDead = 0 \<and> aliveCrew bothDead = 0
   \<and> winner (checkWinCondition bothDead) = Some Crew
   \<and> winner (checkWinCondition bothDead) \<noteq> Some Impostors"
  by (simp add: bothDead_def seat_def initializeGameState_def alivePlayers_def
        aliveImpostors_def aliveCrew_def aliveOf_def checkWinCondition_def)

text \<open>
  C3 (amended): \<open>checkWinCondition\<close> depends on the state only through the numbers of
  live impostors and live crewmates. With no live impostor the crew wins and the game
  stops; with a live impostor and no live crewmate the impostors win and the game stops;
  with live members of both factions the state is returned unchanged.
\<close>

theorem C3_checkWinCondition:
  "(aliveOf Impostor s = 0 \<longrightarrow>
      checkWinCondition s = s\<lparr>isActive := False, winner := Some Crew\<rparr>)
   \<and> (aliveOf Impostor s \<noteq> 0 \<and> aliveOf Crewmate s = 0 \<longrightarrow>
      checkWinCondition s = s\<lparr>isActive := False, winner := Some Impostors\<rparr>)
   \<and> (aliveOf Impostor s \<noteq> 0 \<and> aliveOf Crewmate s \<noteq> 0 \<longrightarrow> checkWinCondition s = s)"
  by (simp add: checkWinCondition_def aliveImpostors_aliveOf aliveCrew_aliveOf)

theorem C3_checkWinCondition_witness:
  "aliveOf Impostor impostorsGone = 0
   \<and> checkWinCondition impostorsGone = impostorsGone\<lparr>isActive := False, winner := Some Crew\<rparr>
   \<and> aliveOf Impostor crewGone \<noteq> 0 \<and> aliveOf Crewmate crewGone = 0
   \<and> checkWinCondition crewGone = crewGone\<lparr>isActive := False, winner := Some Impostors\<rparr>
   \<and> aliveOf Impostor bothLeft \<noteq> 0 \<and> aliveOf Crewmate bothLeft \<noteq> 0
   \<and> checkWinCondition bothLeft = bothLeft"
proof -
  have a: "aliveOf Impostor impostorsGone = 0"
    by (simp add: impostorsGone_def seat_def initializeGameState_def aliveOf_def)
  have b: "aliveOf Impostor crewGone \<noteq> 0 \<and> aliveOf Crewmate crewGone = 0"
    by (simp add: crewGone_def seat_def initializeGameState_def aliveOf_def)
  have c: "aliveOf Impostor bothLeft \<noteq> 0 \<and> aliveOf Crewmate bothLeft \<noteq> 0"
    by (simp add: bothLeft_def seat_def initializeGameState_def aliveOf_def)
  show ?thesis
    using a b c C3_checkWinCondition [of impostorsGone] C3_checkWinCondition [of crewGone]
      C3_checkWinCondition [of bothLeft]
    by blast
qed

section \<open>Mutating one player\<close>

lemma map_of_modify:
  "map_of (modify t f ps) k = (if k = t then map_option f (map_of ps k) else map_of ps k)"
  by (induction ps) (auto simp: modify_def)

lemma keys_modify: "map fst (modify t f ps) = map fst ps"
  by (simp add: modify_def case_prod_unfold)

lemma seats_modify:
  assumes "\<And>p. publicKey (f p) = publicKey p \<and> role (f p) = role p \<and> isAlive (f p) = isAlive p"
  shows "seats (modify k f ps) = seats ps"
  by (induction ps) (auto simp: seats_def modify_def assms)

section \<open>The kill loop\<close>

lemma killStep_killTarget:
  "killStep ps k = (case killTarget ps k of None \<Rightarrow> ps | Some t \<Rightarrow> modify t dead ps)"
  by (simp add: killStep_def killTarget_def split: option.splits jsval.splits)

lemma killTarget_after_kill:
  "killTarget (modify t' dead ps) k = (if killTarget ps k = Some t' then None else killTarget ps k)"
proof (cases "map_of ps k")
  case None
  then show ?thesis by (auto simp: killTarget_def map_of_modify)
next
  case (Some player)
  show ?thesis
  proof (cases "lastAction player")
    case None
    then show ?thesis using Some by (auto simp: killTarget_def map_of_modify)
  next
    case (Some a)
    note a = this
    show ?thesis
    proof (cases "target a")
      case (Str t)
      show ?thesis
      proof (cases "map_of ps t")
        case None
        then show ?thesis using \<open>map_of ps k = Some player\<close> a Str
          by (auto simp: killTarget_def map_of_modify)
      next
        case (Some tp)
        then show ?thesis using \<open>map_of ps k = Some player\<close> a Str
          by (auto simp: killTarget_def map_of_modify)
      qed
    qed (use \<open>map_of ps k = Some player\<close> a in \<open>auto simp: killTarget_def map_of_modify\<close>)
  qed
qed

lemma killTarget_killStep:
  "killTarget ps k = None \<Longrightarrow> killTarget (killStep ps k') k = None"
  by (simp add: killStep_killTarget killTarget_after_kill split: option.splits)

lemma killTarget_killStep_self: "killTarget (killStep ps k) k = None"
  by (simp add: killStep_killTarget killTarget_after_kill split: option.splits)

lemma keys_killStep: "map fst (killStep ps k) = map fst ps"
  by (simp add: killStep_killTarget keys_modify split: option.splits)

lemma fold_killStep_settled:
  "(\<forall>k \<in> S. killTarget ps k = None) \<Longrightarrow>
   \<forall>k \<in> S \<union> set ks. killTarget (fold (\<lambda>k acc. killStep acc k) ks ps) k = None"
proof (induction ks arbitrary: ps S)
  case Nil
  then show ?case by simp
next
  case (Cons a ks)
  have "\<forall>k \<in> insert a S. killTarget (killStep ps a) k = None"
    using Cons.prems by (auto simp: killTarget_killStep killTarget_killStep_self)
  from Cons.IH [OF this] show ?case by simp
qed

lemma keys_fold_killStep: "map fst (fold (\<lambda>k acc. killStep acc k) ks ps) = map fst ps"
  by (induction ks arbitrary: ps) (simp_all add: keys_killStep)

lemma fold_killStep_inert:
  "(\<forall>k \<in> set ks. killTarget ps k = None) \<Longrightarrow> fold (\<lambda>k acc. killStep acc k) ks ps = ps"
  by (induction ks) (simp_all add: killStep_killTarget)

text \<open>
  C9: resolving the kills of a batch twice gives the same players, alive flags included,
  as resolving them once. After the first pass no iteration has a live target left, so
  every iteration of the second pass changes nothing.
\<close>

theorem C9_processKills_idempotent: "processKills (processKills ps) = processKills ps"
proof -
  have "\<forall>k \<in> {} \<union> set (map fst ps). killTarget (processKills ps) k = None"
    unfolding processKills_def by (rule fold_killStep_settled) simp
  then have "\<forall>k \<in> set (map fst (processKills ps)). killTarget (processKills ps) k = None"
    by (simp add: processKills_def keys_fold_killStep)
  then show ?thesis
    using fold_killStep_inert [of "map fst (processKills ps)" "processKills ps"]
    by (simp add: processKills_def [of "processKills ps"])
qed

section \<open>Collecting decisions leaves the game alone\<close>

lemma sameGame_refl: "sameGame s s"
  by (simp add: sameGame_def)

lemma sameGame_trans: "sameGame s s' \<Longrightarrow> sameGame s' s'' \<Longrightarrow> sameGame s s''"
  by (simp add: sameGame_def)

lemma sameGame_handleResponse: "sameGame s (handleResponse s k r)"
  by (simp add: handleResponse_def sameGame_def setVote_def seats_modify Let_def
      split: option.splits Phase.splits)

lemma sameGame_subscriberStep: "sameGame s (subscriberStep env sub s)"
  by (simp add: subscriberStep_def sameGame_handleResponse sameGame_refl split: option.splits)

lemma sameGame_replies: "sameGame s (fold (subscriberStep env) subs s)"
proof (induction subs arbitrary: s)
  case Nil
  show ?case by (simp add: sameGame_refl)
next
  case (Cons sub subs)
  show ?case
    using sameGame_trans [OF sameGame_subscriberStep Cons.IH] by simp
qed

lemma sameGame_storeBotDecision: "sameGame s (storeBotDecision k d s)"
  by (simp add: storeBotDecision_def sameGame_def setVote_def seats_modify split: Phase.splits)

lemma view_yourRole: "yourRole (getPlayerView s k) = map_option role (map_of (players s) k)"
  by (simp add: getPlayerView_def Let_def)

lemma view_phase: "phase_v (getPlayerView s k) = phase s"
  by (simp add: getPlayerView_def Let_def)

lemma view_roles_present:
  assumes "map_of (players s) k = Some p" "type (role p) = Impostor"
  shows "list_all (\<lambda>pv. role_v pv \<noteq> None) (players_v (getPlayerView s k))"
  using assms by (simp add: getPlayerView_def list_all_iff case_prod_unfold)

lemma no_targets_for_impostor:
  assumes "map_of (players s) k = Some p" "type (role p) = Impostor"
  shows "filter (\<lambda>pv. isAlive_v pv \<and> room_v pv = r \<and> role_v pv = None)
           (players_v (getPlayerView s k)) = []"
  using view_roles_present [OF assms] by (auto simp: filter_empty_conv list_all_iff)

text \<open>On a view of the host for one of its players, the fallback policy never raises.\<close>

lemma makeBotDecision_total:
  assumes "map_of (players s) k = Some p"
  shows "\<exists>d. makeBotDecision (getPlayerView s k) u1 u2 = Inr d"
proof (cases "type (role p) = Impostor")
  case True
  show ?thesis
    using no_targets_for_impostor [OF assms True, of "room (role p)"] assms
    by (simp add: makeBotDecision_def view_yourRole view_phase split: Phase.splits)
next
  case False
  then show ?thesis using assms
    by (simp add: makeBotDecision_def view_yourRole view_phase split: Phase.splits)
qed

lemma botStep_total: "\<exists>s'. botStep env s k = Inr s' \<and> sameGame s s'"
proof (cases "map_of (players s) k")
  case None
  then show ?thesis by (simp add: botStep_def sameGame_refl)
next
  case (Some p)
  obtain d where
    "makeBotDecision (getPlayerView s k) (fst (botRandom env k)) (snd (botRandom env k)) = Inr d"
    using makeBotDecision_total [OF Some] by blast
  then show ?thesis using Some
    by (simp add: botStep_def sameGame_refl sameGame_storeBotDecision)
qed

lemma botLoop_total: "\<exists>s'. botLoop env s ks = Inr s' \<and> sameGame s s'"
proof (induction ks arbitrary: s)
  case Nil
  show ?case by (simp add: sameGame_refl)
next
  case (Cons k ks)
  obtain s1 where s1: "botStep env s k = Inr s1" "sameGame s s1"
    using botStep_total by blast
  obtain s2 where s2: "botLoop env s1 ks = Inr s2" "sameGame s1 s2"
    using Cons.IH by blast
  show ?case using s1 s2 sameGame_trans by auto
qed

lemma broadcast_total: "\<exists>s'. broadcastGameState env s = Inr s' \<and> sameGame s s'"
proof -
  obtain s1 where s1: "botLoop env s (map fst (players s)) = Inr s1" "sameGame s s1"
    using botLoop_total by blast
  have "sameGame s (fold (subscriberStep env) (subscribers env) s1)"
    using sameGame_trans [OF s1(2) sameGame_replies] .
  then show ?thesis using s1(1) by (simp add: broadcastGameState_def)
qed

section \<open>What the resolution steps keep\<close>

lemma exceptAlive_modify: "exceptAlive (modify t dead ps) = exceptAlive ps"
  by (induction ps) (auto simp: exceptAlive_def modify_def)

lemma exceptAlive_killStep: "exceptAlive (killStep ps k) = exceptAlive ps"
  by (simp add: killStep_killTarget exceptAlive_modify split: option.splits)

lemma exceptAlive_processKills: "exceptAlive (processKills ps) = exceptAlive ps"
proof -
  have "exceptAlive (fold (\<lambda>k acc. killStep acc k) ks ps) = exceptAlive ps" for ks
    by (induction ks arbitrary: ps) (simp_all add: exceptAlive_killStep)
  then show ?thesis by (simp add: processKills_def)
qed

lemma slots_exceptAlive:
  "map (\<lambda>(k, p). (lastAction p, lastMovement p, lastVote p)) ps
   = map (\<lambda>(k, p). (lastAction p, lastMovement p, lastVote p)) (exceptAlive ps)"
  by (simp add: exceptAlive_def case_prod_unfold comp_def)

lemma roles_exceptAlive:
  "map (\<lambda>(k, p). role p) ps = map (\<lambda>(k, p). role p) (exceptAlive ps)"
  by (simp add: exceptAlive_def case_prod_unfold comp_def)

lemma slots_processKills:
  "map (\<lambda>(k, p). (lastAction p, lastMovement p, lastVote p)) (processKills ps)
   = map (\<lambda>(k, p). (lastAction p, lastMovement p, lastVote p)) ps"
  using slots_exceptAlive [of "processKills ps"] slots_exceptAlive [of ps]
  by (simp add: exceptAlive_processKills)

lemma roles_processKills:
  "map (\<lambda>(k, p). role p) (processKills ps) = map (\<lambda>(k, p). role p) ps"
  using roles_exceptAlive [of "processKills ps"] roles_exceptAlive [of ps]
  by (simp add: exceptAlive_processKills)

lemma lastVote_applyMovement: "lastVote (applyMovement p) = lastVote p"
  by (simp add: applyMovement_def setRoom_def split: option.splits)

lemma lastVotes_resolveRound:
  "map (\<lambda>(k, p). lastVote p) (players (resolveRound s)) = map (\<lambda>(k, p). lastVote p) (players s)"
proof -
  have "map (\<lambda>(k, p). lastVote p) (processKills ps) = map (\<lambda>(k, p). lastVote p) ps" for ps
    using arg_cong [OF slots_processKills [of ps], of "map (\<lambda>(a, m, v). v)"]
    by (simp add: case_prod_unfold comp_def)
  then show ?thesis
    by (simp add: resolveRound_def clearRecords_def processMovements_def case_prod_unfold
        comp_def lastVote_applyMovement)
qed

lemma cleared_resolveRound:
  "list_all (\<lambda>(k, p). lastAction p = None \<and> lastMovement p = None) (players (resolveRound s))"
  by (simp add: resolveRound_def clearRecords_def list_all_iff case_prod_unfold)

lemma slots_resolveVotes:
  "map (\<lambda>(k, p). (lastAction p, lastMovement p, lastVote p)) (players (resolveVotes vr s))
   = map (\<lambda>(k, p). (lastAction p, lastMovement p, lastVote p)) (players s)"
  using slots_exceptAlive [of "modify e dead (players s)" for e] slots_exceptAlive [of "players s"]
  by (simp add: resolveVotes_def ejectPlayer_def exceptAlive_modify split: option.splits)


lemma startRound_result:
  "\<exists>s'. startRound env s = Inr s' \<and> seats (players s') = seats (players s)
     \<and> phase s' = (if isActive s then Action else phase s)
     \<and> currentRound s' = currentRound s \<and> accusedPlayer s' = accusedPlayer s
     \<and> isActive s' = isActive s \<and> winner s' = winner s \<and> votingResults s' = votingResults s"
proof (cases "isActive s")
  case False
  then show ?thesis by (simp add: startRound_def)
next
  case True
  define s2 where "s2 = s\<lparr>phase := Action, actionOrder := shuffleActionOrder env (s\<lparr>phase := Action\<rparr>)\<rparr>"
  obtain s' where s': "broadcastGameState env s2 = Inr s'" "sameGame s2 s'"
    using broadcast_total by blast
  have "startRound env s = Inr s'"
    using True s'(1) by (simp add: startRound_def s2_def Let_def)
  moreover have "phase s2 = Action" by (simp add: s2_def)
  ultimately show ?thesis
    using s'(2) True by (simp add: sameGame_def s2_def)
qed

lemma seats_checkWinCondition: "players (checkWinCondition s) = players s"
  by (simp add: checkWinCondition_def)

lemma roomsInRange_roles:
  "roomsInRange s = list_all (\<lambda>r. inRange (room r)) (map (\<lambda>(k, p). role p) (players s))"
  by (simp add: roomsInRange_def list_all_iff case_prod_unfold)

lemma roles_seats: "map (\<lambda>(k, p). role p) ps = map (\<lambda>(k, pk, r, a). r) (seats ps)"
  by (simp add: seats_def case_prod_unfold comp_def)

lemma roomsInRange_seats:
  "seats (players s') = seats (players s) \<Longrightarrow> roomsInRange s' = roomsInRange s"
  by (simp add: roomsInRange_roles roles_seats)

lemma jsRem_clockwise: "inRange r \<Longrightarrow> jsRem (r + 1) 6 = (r + 1) mod 6"
  by (simp add: jsRem_def inRange_def sgn_if)

lemma jsRem_counterclockwise: "inRange r \<Longrightarrow> jsRem (r + 5) 6 = (r - 1) mod 6"
proof -
  assume "inRange r"
  then have "0 < r + 5" by (simp add: inRange_def)
  moreover have "(r + 5) mod 6 = (r - 1) mod 6"
    by presburger
  ultimately show ?thesis by (simp add: jsRem_def sgn_if)
qed

lemma inRange_mod: "inRange (r mod 6)"
  by (simp add: inRange_def)

lemma room_applyMovement:
  assumes "inRange (room (role p))"
  shows "room (role (applyMovement p)) =
     (case lastMovement p of
        None \<Rightarrow> room (role p)
      | Some m \<Rightarrow>
          if type_d m = Str ''clockwise'' then (room (role p) + 1) mod 6
          else if type_d m = Str ''counterclockwise'' then (room (role p) - 1) mod 6
          else room (role p))"
  using assms
  by (simp add: applyMovement_def setRoom_def jsRem_clockwise jsRem_counterclockwise
      split: option.splits)

lemma inRange_applyMovement:
  assumes "inRange (room (role p))"
  shows "inRange (room (role (applyMovement p)))"
  using assms by (simp add: room_applyMovement inRange_mod split: option.splits)

lemma stay_applyMovement:
  "lastMovement p = None \<or> (\<exists>m. lastMovement p = Some m \<and> type_d m = Str ''stay'')
   \<Longrightarrow> applyMovement p = p"
  by (auto simp: applyMovement_def)

lemma inRange_movement_sequence:
  "inRange (room (role p)) \<Longrightarrow>
   inRange (room (role (fold (\<lambda>m q. applyMovement (q\<lparr>lastMovement := m\<rparr>)) ms p)))"
proof (induction ms arbitrary: p)
  case Nil
  then show ?case by simp
next
  case (Cons m ms)
  have "inRange (room (role (applyMovement (p\<lparr>lastMovement := m\<rparr>))))"
    using Cons.prems by (intro inRange_applyMovement) simp
  from Cons.IH [OF this] show ?case by simp
qed

lemma roomsInRange_resolveRound: "roomsInRange s \<Longrightarrow> roomsInRange (resolveRound s)"
proof -
  assume a: "roomsInRange s"
  have "list_all (\<lambda>r. inRange (room r)) (map (\<lambda>(k, p). role p) (processKills (players s)))"
    using a by (simp add: roles_processKills roomsInRange_roles)
  then show ?thesis
    by (simp add: roomsInRange_def resolveRound_def clearRecords_def processMovements_def
        list_all_iff case_prod_unfold inRange_applyMovement)
qed




lemma rest_checkWinCondition:
  "players (checkWinCondition s) = players s \<and> phase (checkWinCondition s) = phase s
   \<and> currentRound (checkWinCondition s) = currentRound s
   \<and> accusedPlayer (checkWinCondition s) = accusedPlayer s
   \<and> votingResults (checkWinCondition s) = votingResults s"
  by (simp add: checkWinCondition_def)

lemma rest_resolveRound:
  "phase (resolveRound s) = phase s \<and> currentRound (resolveRound s) = currentRound s
   \<and> accusedPlayer (resolveRound s) = accusedPlayer s
   \<and> votingResults (resolveRound s) = votingResults s
   \<and> isActive (resolveRound s) = isActive s \<and> winner (resolveRound s) = winner s"
  by (simp add: resolveRound_def)

lemma rest_resolveVotes:
  "phase (resolveVotes vr s) = phase s \<and> currentRound (resolveVotes vr s) = currentRound s
   \<and> accusedPlayer (resolveVotes vr s) = accusedPlayer s
   \<and> votingResults (resolveVotes vr s) = votingResults s
   \<and> isActive (resolveVotes vr s) = isActive s \<and> winner (resolveVotes vr s) = winner s"
  by (simp add: resolveVotes_def ejectPlayer_def split: option.splits)

lemma processRound_result:
  "\<exists>s'. processRound env s = Inr s'
     \<and> seats (players s') = seats (players (resolveRound s))
     \<and> isActive s' = isActive (checkWinCondition (resolveRound s))
     \<and> winner s' = winner (checkWinCondition (resolveRound s))
     \<and> phase s' = (if isActive (checkWinCondition (resolveRound s)) then Action else phase s)
     \<and> currentRound s' = (if isActive (checkWinCondition (resolveRound s))
                           then currentRound s + 1 else currentRound s)"
proof -
  define s1 where "s1 = checkWinCondition (resolveRound s)"
  have s1: "players s1 = players (resolveRound s)" "phase s1 = phase s"
    "currentRound s1 = currentRound s"
    using rest_checkWinCondition [of "resolveRound s"] rest_resolveRound [of s]
    by (simp_all add: s1_def)
  show ?thesis
  proof (cases "isActive s1")
    case True
    obtain s' where s': "startRound env (s1\<lparr>currentRound := currentRound s1 + 1\<rparr>) = Inr s'"
      "seats (players s') = seats (players s1)" "phase s' = Action"
      "currentRound s' = currentRound s1 + 1" "isActive s' = isActive s1" "winner s' = winner s1"
      using startRound_result [of env "s1\<lparr>currentRound := currentRound s1 + 1\<rparr>"] True by auto
    have "processRound env s = Inr s'"
      using True s'(1) by (simp add: processRound_def s1_def [symmetric] Let_def)
    then show ?thesis using s' s1 True by (simp add: s1_def [symmetric])
  next
    case False
    obtain s' where s': "broadcastGameState env s1 = Inr s'" "sameGame s1 s'"
      using broadcast_total by blast
    have "processRound env s = Inr s'"
      using False s'(1) by (simp add: processRound_def s1_def [symmetric] Let_def)
    then show ?thesis using s' s1 False by (simp add: s1_def [symmetric] sameGame_def)
  qed
qed

lemma processVotes_skipped:
  "votingResults s = None \<or> accusedPlayer s = None \<or> accusedPlayer s = Some []
   \<Longrightarrow> processVotes env s = Inr s"
  by (auto simp: processVotes_def split: option.splits)

lemma processVotes_result:
  assumes "votingResults s = Some vr" "accusedPlayer s = Some a" "a \<noteq> []"
  shows "\<exists>s'. processVotes env s = Inr s'
     \<and> seats (players s') = seats (players (resolveVotes vr s))
     \<and> isActive s' = isActive (checkWinCondition (resolveVotes vr s))
     \<and> winner s' = winner (checkWinCondition (resolveVotes vr s))
     \<and> phase s' = (if isActive (checkWinCondition (resolveVotes vr s)) then Action else phase s)
     \<and> currentRound s' = currentRound s
     \<and> accusedPlayer s' = accusedPlayer s \<and> votingResults s' = votingResults s"
proof -
  define s1 where "s1 = checkWinCondition (resolveVotes vr s)"
  have s1: "players s1 = players (resolveVotes vr s)" "phase s1 = phase s"
    "currentRound s1 = currentRound s" "accusedPlayer s1 = accusedPlayer s"
    "votingResults s1 = votingResults s"
    using rest_checkWinCondition [of "resolveVotes vr s"] rest_resolveVotes [of vr s]
    by (simp_all add: s1_def)
  obtain s' where s': "startRound env s1 = Inr s'"
    "seats (players s') = seats (players s1)" "phase s' = (if isActive s1 then Action else phase s1)"
    "currentRound s' = currentRound s1" "isActive s' = isActive s1" "winner s' = winner s1"
    "accusedPlayer s' = accusedPlayer s1" "votingResults s' = votingResults s1"
    using startRound_result [of env s1] by auto
  have "processVotes env s = Inr (if isActive s1 then s' else s1)"
    using assms s'(1) by (simp add: processVotes_def s1_def [symmetric] Let_def)
  then show ?thesis using s' s1 by (auto simp: s1_def [symmetric])
qed

lemma processVotes_keeps_votes:
  "\<exists>s'. processVotes env s = Inr s' \<and> accusedPlayer s' = accusedPlayer s
     \<and> votingResults s' = votingResults s"
proof (cases "votingResults s = None \<or> accusedPlayer s = None \<or> accusedPlayer s = Some []")
  case True
  then show ?thesis using processVotes_skipped by simp
next
  case False
  then obtain vr a where "votingResults s = Some vr" "accusedPlayer s = Some a" "a \<noteq> []"
    by auto
  from processVotes_result [OF this] show ?thesis by blast
qed

declare padBots.simps [simp del] string_of_nat.simps [simp del]

section \<open>Votes, phase starts and role assignment\<close>

lemma list_all_mapSet: "list_all P m \<Longrightarrow> P (k, v) \<Longrightarrow> list_all P (mapSet k v m)"
  by (induction m) auto

lemma map_of_seats:
  "map_of (seats ps) k = map_option (\<lambda>p. (publicKey p, role p, isAlive p)) (map_of ps k)"
  by (induction ps) (auto simp: seats_def)

lemma isAliveKey_seats:
  assumes "seats ps' = seats ps"
  shows "isAliveKey ps' k = isAliveKey ps k"
proof -
  have "isAliveKey qs k = (case map_of (seats qs) k of None \<Rightarrow> False | Some (pk, r, a) \<Rightarrow> a)" for qs
    by (simp add: isAliveKey_def map_of_seats split: option.splits)
  then show ?thesis using assms by simp
qed

lemma votersAlive_handleResponse: "votersAlive s \<Longrightarrow> votersAlive (handleResponse s k r)"
proof -
  assume a: "votersAlive s"
  have keep: "isAliveKey (modify k f (players s)) = isAliveKey (players s)"
    if "\<And>p. publicKey (f p) = publicKey p \<and> role (f p) = role p \<and> isAlive (f p) = isAlive p" for f
    using isAliveKey_seats [OF seats_modify [of f k "players s"]] that by auto
  show ?thesis
  proof (cases "map_of (players s) k")
    case None
    then show ?thesis using a by (simp add: handleResponse_def)
  next
    case (Some player)
    show ?thesis
    proof (cases "isAlive player")
      case False
      then show ?thesis using a Some by (simp add: handleResponse_def)
    next
      case True
      then have k: "isAliveKey (players s) k" using Some by (simp add: isAliveKey_def)
      show ?thesis using a Some True k
        by (cases "phase s")
          (auto simp: handleResponse_def votersAlive_def setVote_def keep Let_def
            intro!: list_all_mapSet split: option.splits)
    qed
  qed
qed

lemma votersAlive_replies: "votersAlive s \<Longrightarrow> votersAlive (fold (subscriberStep env) subs s)"
proof (induction subs arbitrary: s)
  case Nil
  then show ?case by simp
next
  case (Cons sub subs)
  have "votersAlive (subscriberStep env sub s)"
    using Cons.prems by (simp add: subscriberStep_def votersAlive_handleResponse split: option.splits)
  from Cons.IH [OF this] show ?case by simp
qed

lemma votersAlive_storeBotDecision:
  assumes "votersAlive s" "isAliveKey (players s) k"
  shows "votersAlive (storeBotDecision k d s)"
proof -
  have keep: "isAliveKey (modify k f (players s)) = isAliveKey (players s)"
    if "\<And>p. publicKey (f p) = publicKey p \<and> role (f p) = role p \<and> isAlive (f p) = isAlive p" for f
    using isAliveKey_seats [OF seats_modify [of f k "players s"]] that by auto
  show ?thesis using assms
    by (cases "phase s")
      (auto simp: storeBotDecision_def votersAlive_def setVote_def keep
        intro!: list_all_mapSet split: option.splits)
qed

lemma votersAlive_botStep:
  assumes "votersAlive s" "botStep env s k = Inr s'"
  shows "votersAlive s'"
proof (cases "map_of (players s) k")
  case None
  then show ?thesis using assms by (simp add: botStep_def)
next
  case (Some player)
  show ?thesis
  proof (cases "take 4 k = ''bot-'' \<and> isAlive player")
    case False
    then show ?thesis using assms Some by (auto simp: botStep_def)
  next
    case True
    then have k: "isAliveKey (players s) k" using Some by (simp add: isAliveKey_def)
    show ?thesis using assms Some True votersAlive_storeBotDecision [OF assms(1) k]
      by (auto simp: botStep_def split: sum.splits)
  qed
qed

lemma votersAlive_botLoop:
  "votersAlive s \<Longrightarrow> botLoop env s ks = Inr s' \<Longrightarrow> votersAlive s'"
proof (induction ks arbitrary: s)
  case Nil
  then show ?case by simp
next
  case (Cons k ks)
  obtain s1 where s1: "botStep env s k = Inr s1"
    using botStep_total by blast
  have "votersAlive s1" using votersAlive_botStep [OF Cons.prems(1) s1] .
  moreover have "botLoop env s1 ks = Inr s'" using Cons.prems(2) s1 by simp
  ultimately show ?case using Cons.IH by blast
qed

lemma votersAlive_broadcast:
  "votersAlive s \<Longrightarrow> broadcastGameState env s = Inr s' \<Longrightarrow> votersAlive s'"
  by (auto simp: broadcastGameState_def votersAlive_replies split: sum.splits
      dest: votersAlive_botLoop)

lemma startVotingPhase_result:
  "\<exists>s'. startVotingPhase env a s = Inr s' \<and> seats (players s') = seats (players s)
     \<and> phase s' = Voting \<and> accusedPlayer s' = Some a \<and> votersAlive s'
     \<and> isActive s' = isActive s \<and> winner s' = winner s \<and> currentRound s' = currentRound s"
proof -
  define s0 where "s0 = s\<lparr>phase := Voting, accusedPlayer := Some a, votingResults := Some []\<rparr>"
  obtain s' where s': "broadcastGameState env s0 = Inr s'" "sameGame s0 s'"
    using broadcast_total by blast
  have "votersAlive s0" by (simp add: s0_def votersAlive_def)
  then have "votersAlive s'" using votersAlive_broadcast s'(1) by blast
  then show ?thesis using s' by (simp add: startVotingPhase_def s0_def sameGame_def)
qed

lemma startMovementPhase_result:
  "\<exists>s'. startMovementPhase env s = Inr s' \<and> seats (players s') = seats (players s)
     \<and> phase s' = Movement \<and> isActive s' = isActive s \<and> winner s' = winner s"
proof -
  obtain s' where s': "broadcastGameState env (s\<lparr>phase := Movement\<rparr>) = Inr s'"
    "sameGame (s\<lparr>phase := Movement\<rparr>) s'"
    using broadcast_total by blast
  then show ?thesis by (simp add: startMovementPhase_def sameGame_def)
qed

section \<open>Rounding keeps the room draw below 6\<close>

lemma pow2_pos: "0 < pow2 e"
  by (simp add: pow2_def)

lemma pow2_Suc: "pow2 (e + 1) = 2 * pow2 e"
proof (cases "0 \<le> e")
  case True
  then show ?thesis by (simp add: pow2_def nat_add_distrib)
next
  case False
  then have "nat (- e) = Suc (nat (- e - 1))" by simp
  then show ?thesis using False by (simp add: pow2_def)
qed

lemma pow2_add: "0 \<le> k \<Longrightarrow> pow2 (e + k) = 2 ^ nat k * pow2 e"
proof (induction "nat k" arbitrary: k)
  case 0
  then show ?case by simp
next
  case (Suc n)
  then have k: "k = (k - 1) + 1" "n = nat (k - 1)" "0 \<le> k - 1" by simp_all
  have "pow2 (e + k) = 2 * pow2 (e + (k - 1))"
    using pow2_Suc [of "e + (k - 1)"] by (simp add: algebra_simps)
  also have "\<dots> = 2 * (2 ^ nat (k - 1) * pow2 e)"
    using Suc.hyps(1) [OF k(2) k(3)] by simp
  also have "\<dots> = 2 ^ nat k * pow2 e"
    using Suc.hyps(2) k(2) by (metis mult.assoc power_Suc)
  finally show ?case .
qed

lemma roundHalfEven_nonneg: "0 \<le> m \<Longrightarrow> 0 \<le> roundHalfEven m"
  by (simp add: roundHalfEven_def Let_def)

lemma roundHalfEven_le: "m < of_int N \<Longrightarrow> roundHalfEven m \<le> N"
proof -
  assume "m < of_int N"
  then have "\<lfloor>m\<rfloor> < N" by (simp add: floor_less_iff)
  then show ?thesis by (simp add: roundHalfEven_def Let_def)
qed

lemma roundHalfEven_less: "m < of_int N - 1 / 2 \<Longrightarrow> roundHalfEven m < N"
proof -
  assume a: "m < of_int N - 1 / 2"
  then have "m < of_int N" by simp
  then have n: "\<lfloor>m\<rfloor> \<le> N - 1" by (simp add: floor_less_iff)
  show ?thesis
  proof (cases "\<lfloor>m\<rfloor> = N - 1")
    case True
    then have "m - of_int \<lfloor>m\<rfloor> < 1 / 2" using a by simp
    then show ?thesis using True by (simp add: roundHalfEven_def Let_def)
  next
    case False
    then have "\<lfloor>m\<rfloor> + 1 < N" using n by simp
    then show ?thesis by (simp add: roundHalfEven_def Let_def)
  qed
qed

lemma roundDouble_nonneg: "0 \<le> x \<Longrightarrow> 0 \<le> roundDouble x"
  using pow2_pos [of "binade x - 52"]
  by (simp add: roundDouble_def roundHalfEven_nonneg)

lemma binadeDown_upper: "x < 2 \<Longrightarrow> x < pow2 (binadeDown n x + 1)"
proof (induction n arbitrary: x)
  case 0
  then show ?case by (simp add: pow2_def)
next
  case (Suc n)
  show ?case
  proof (cases "1 \<le> x")
    case True
    then show ?thesis using Suc.prems by (simp add: pow2_def)
  next
    case False
    then have "x * 2 < 2" by simp
    from Suc.IH [OF this] have "x * 2 < 2 * pow2 (binadeDown n (x * 2))"
      by (simp add: pow2_Suc)
    then show ?thesis using False by simp
  qed
qed

lemma binadeDown_le: "binadeDown n x \<le> 0"
proof (induction n arbitrary: x)
  case 0
  show ?case by simp
next
  case (Suc n)
  show ?case using Suc.IH [of "x * 2"] by simp
qed

lemma binadeUp_numeral:
  "binadeUp (numeral k) x = (if x < 2 then 0 else binadeUp (pred_numeral k) (x / 2) + 1)"
  by (simp add: numeral_eq_Suc)

lemma binadeDown_numeral:
  "binadeDown (numeral k) x = (if 1 \<le> x then 0 else binadeDown (pred_numeral k) (x * 2) - 1)"
  by (simp add: numeral_eq_Suc)

lemma binade_small:
  assumes "x < 4"
  shows "x < pow2 (binade x + 1)" and "binade x \<le> 1"
proof -
  have up: "binadeUp 1023 x = (if x < 2 then 0 else 1)"
    using assms by (simp add: binadeUp_numeral)
  show "x < pow2 (binade x + 1)"
  proof (cases "1 \<le> x")
    case True
    then show ?thesis using assms by (simp add: binade_def up pow2_def)
  next
    case False
    then show ?thesis using binadeDown_upper [of x 1022] by (simp add: binade_def)
  qed
  show "binade x \<le> 1"
    using binadeDown_le [of 1022 x] by (simp add: binade_def up)
qed

lemma binade_4_8: "4 \<le> x \<Longrightarrow> x < 8 \<Longrightarrow> binade x = 2"
proof -
  assume a: "4 \<le> x" "x < 8"
  show ?thesis using a by (simp add: binade_def binadeUp_numeral)
qed

lemma binade_half_one: "1 / 2 \<le> x \<Longrightarrow> x < 1 \<Longrightarrow> binade x = - 1"
proof -
  assume a: "1 / 2 \<le> x" "x < 1"
  show ?thesis using a by (simp add: binade_def binadeDown_numeral)
qed

lemma roundDouble_below_4:
  assumes "0 \<le> x" "x < 4"
  shows "roundDouble x \<le> 4"
proof -
  define e where "e = binade x"
  have u: "0 < pow2 (e - 52)" by (rule pow2_pos)
  have "pow2 (e + 1) = 2 ^ 53 * pow2 (e - 52)"
    using pow2_add [of 53 "e - 52"] by (simp add: add.commute)
  then have "x < 2 ^ 53 * pow2 (e - 52)"
    using binade_small(1) [OF assms(2)] by (simp add: e_def)
  then have "x / pow2 (e - 52) < of_int (2 ^ 53)"
    using u by (simp add: pos_divide_less_eq)
  then have "roundHalfEven (x / pow2 (e - 52)) \<le> 2 ^ 53"
    by (rule roundHalfEven_le)
  then have "of_int (roundHalfEven (x / pow2 (e - 52))) \<le> (2 ^ 53 :: rat)"
    by (metis of_int_le_iff of_int_numeral of_int_power)
  then have "roundDouble x \<le> 2 ^ 53 * pow2 (e - 52)"
    using u by (simp add: roundDouble_def e_def)
  also have "\<dots> = pow2 (e + 1)"
    using pow2_add [of 53 "e - 52"] by (simp add: add.commute)
  also have "\<dots> \<le> 4"
  proof -
    have "e + 1 \<le> 2" using binade_small(2) [OF assms(2)] by (simp add: e_def)
    then have "pow2 (e + 1) \<le> pow2 2"
      using pow2_add [of "2 - (e + 1)" "e + 1"] pow2_pos [of "e + 1"]
      by (simp add: mult_le_cancel_right1 self_le_power)
    then show ?thesis by (simp add: pow2_def)
  qed
  finally show ?thesis .
qed

lemma roundDouble_below_6:
  assumes "4 \<le> x" "x \<le> 6 - 6 / 2 ^ 53"
  shows "roundDouble x < 6"
proof -
  have e: "binade x = 2" using assms by (intro binade_4_8) simp_all
  have p: "pow2 (- 50) = 1 / 2 ^ 50" by (simp add: pow2_def)
  have "x * 2 ^ 50 \<le> (6 - 6 / 2 ^ 53) * 2 ^ 50"
    using assms(2) by simp
  then have "x * 2 ^ 50 < of_int (6 * 2 ^ 50) - 1 / 2" by simp
  then have "roundHalfEven (x * 2 ^ 50) < 6 * 2 ^ 50"
    by (rule roundHalfEven_less)
  then have "(of_int (roundHalfEven (x * 2 ^ 50)) :: rat) < of_int (6 * 2 ^ 50)"
    using of_int_less_iff by blast
  then have "of_int (roundHalfEven (x * 2 ^ 50)) / 2 ^ 50 < (6 :: rat)"
    by (simp add: pos_divide_less_eq)
  then show ?thesis by (simp add: roundDouble_def e p)
qed

lemma isDouble_below_1:
  assumes "isDouble u" "u < 1"
  shows "u \<le> 1 - 1 / 2 ^ 53"
proof (cases "1 / 2 \<le> u")
  case False
  then show ?thesis by simp
next
  case True
  have e: "binade u = - 1" using True assms(2) by (rule binade_half_one)
  have p: "pow2 (- 53) = 1 / 2 ^ 53" by (simp add: pow2_def)
  define k where "k = roundHalfEven (u * 2 ^ 53)"
  have u: "u = of_int k / 2 ^ 53"
    using assms(1) by (simp add: isDouble_def roundDouble_def e p k_def)
  then have "(of_int k :: rat) < of_int (2 ^ 53)"
    using assms(2) by (simp add: pos_divide_less_eq)
  then have "k < 2 ^ 53" using of_int_less_iff by blast
  then have "k \<le> 2 ^ 53 - 1" by simp
  then have "(of_int k :: rat) \<le> of_int (2 ^ 53 - 1)" using of_int_le_iff by blast
  then have "(of_int k :: rat) / 2 ^ 53 \<le> (2 ^ 53 - 1) / 2 ^ 53"
    by (simp add: divide_le_cancel)
  then show ?thesis using u by (simp add: diff_divide_distrib)
qed

lemma inRange_draw:
  assumes "isDouble u" "u < 1"
  shows "inRange \<lfloor>jsMul u 6\<rfloor>"
proof -
  have u0: "0 \<le> u" using assms(1) by (simp add: isDouble_def)
  have x: "u * 6 \<le> 6 - 6 / 2 ^ 53"
    using isDouble_below_1 [OF assms] by simp
  have m: "jsMul u 6 = roundDouble (u * 6)" using u0 by (simp add: jsMul_def)
  have lo: "0 \<le> roundDouble (u * 6)" using u0 by (intro roundDouble_nonneg) simp
  have hi: "roundDouble (u * 6) < 6"
  proof (cases "u * 6 < 4")
    case True
    then show ?thesis using roundDouble_below_4 [of "u * 6"] u0 by simp
  next
    case False
    then show ?thesis using roundDouble_below_6 [of "u * 6"] x by simp
  qed
  show ?thesis using lo hi by (simp add: inRange_def m floor_less_iff)
qed

text \<open>
  A draw at which rounding matters: the exact product is \<open>5 - 2^-51\<close>, halfway between
  two doubles, and the product as the host computes it is 5.
\<close>

lemma rounded_product_reaches_5:
  "isDouble (3752999689475413 / 2 ^ 52) \<and> \<lfloor>(3752999689475413 / 2 ^ 52 :: rat) * 6\<rfloor> = 4
   \<and> \<lfloor>jsMul (3752999689475413 / 2 ^ 52) 6\<rfloor> = 5"
  by code_simp

lemma isDouble_half: "isDouble (1 / 2)"
  by code_simp

lemma roomsInRange_assignRoles:
  assumes "drawsInUnit env" "roomsInRange s"
  shows "roomsInRange (assignRoles env cands s)"
proof -
  have new: "inRange (room (role (newPlayer env i k)))" for i k
    using assms(1) by (simp add: newPlayer_def drawsInUnit_def inRange_draw)
  have "list_all (\<lambda>(k, p). inRange (room (role p))) m \<Longrightarrow>
        list_all (\<lambda>(k, p). inRange (room (role p)))
          (fold (\<lambda>(index, k) m. mapSet k (newPlayer env index k) m) ixs m)" for ixs m
  proof (induction ixs arbitrary: m)
    case Nil
    then show ?case by simp
  next
    case (Cons ik ixs)
    obtain i k where ik: "ik = (i, k)" by (cases ik)
    have "list_all (\<lambda>(k, p). inRange (room (role p))) (mapSet k (newPlayer env i k) m)"
      using Cons.prems new by (intro list_all_mapSet) simp_all
    from Cons.IH [OF this] show ?case by (simp add: ik)
  qed
  then show ?thesis using assms(2) by (simp add: assignRoles_def roomsInRange_def)
qed

lemma startGame_result:
  "\<exists>s'. startGame env s = Inr s'
     \<and> seats (players s') = seats (players (assignRoles env (padBots (activeSubscribers env)) s))
     \<and> isActive s' = isActive s \<and> phase s' = (if isActive s then Action else phase s)"
proof -
  define s1 where "s1 = assignRoles env (padBots (activeSubscribers env)) s"
  define s2 where "s2 = s1\<lparr>actionOrder := shuffleActionOrder env s1\<rparr>"
  obtain s' where s': "startRound env s2 = Inr s'" "seats (players s') = seats (players s2)"
    "isActive s' = isActive s2" "phase s' = (if isActive s2 then Action else phase s2)"
    using startRound_result [of env s2] by auto
  have "startGame env s = Inr s'"
    using s'(1) by (simp add: startGame_def s1_def s2_def Let_def)
  moreover have "isActive s2 = isActive s" "phase s2 = phase s" "players s2 = players s1"
    by (simp_all add: s2_def s1_def assignRoles_def)
  ultimately show ?thesis using s'(2-4) by (simp add: s1_def)
qed


lemma mapSet_fresh: "k \<notin> fst ` set m \<Longrightarrow> mapSet k v m = m @ [(k, v)]"
  by (induction m) auto

lemma fold_mapSet_fresh:
  "distinct (map snd ixs) \<Longrightarrow> snd ` set ixs \<inter> fst ` set m = {} \<Longrightarrow>
   fold (\<lambda>(i, k) m. mapSet k (f i k) m) ixs m = m @ map (\<lambda>(i, k). (k, f i k)) ixs"
proof (induction ixs arbitrary: m)
  case Nil
  then show ?case by simp
next
  case (Cons ik ixs)
  obtain i k where ik: "ik = (i, k)" by (cases ik)
  have fresh: "k \<notin> fst ` set m" using Cons.prems(2) by (auto simp: ik)
  have d: "distinct (map snd ixs)" and nk: "k \<notin> snd ` set ixs"
    using Cons.prems(1) by (auto simp: ik)
  have "snd ` set ixs \<inter> fst ` set (m @ [(k, f i k)]) = {}"
    using Cons.prems(2) nk by (auto simp: ik)
  from Cons.IH [OF d this] show ?case by (simp add: ik mapSet_fresh [OF fresh])
qed

lemma count_first:
  "length (filter (\<lambda>(i, k). i < n) (enumerate m xs)) = min (n - m) (length xs)"
  by (induction xs arbitrary: m) auto

lemma count_rest:
  "length (filter (\<lambda>(i, k). \<not> i < n) (enumerate m xs)) = length xs - (n - m)"
  by (induction xs arbitrary: m) auto

lemma padBots_length: "6 \<le> length (padBots xs)"
  by (induction xs rule: padBots.induct) (simp add: padBots.simps)

lemma assignRoles_distinct:
  assumes "distinct sh"
  shows "fold (\<lambda>(index, k) m. mapSet k (newPlayer env index k) m) (enumerate 0 sh) []
         = map (\<lambda>(i, k). (k, newPlayer env i k)) (enumerate 0 sh)"
  using fold_mapSet_fresh [of "enumerate 0 sh" "[]" "newPlayer env"] assms by simp

lemma assignRoles_counts:
  assumes "distinct cands" "mset (shuffle env cands) = mset cands" "drawsInUnit env"
    "2 \<le> length cands"
  shows "length (filter (\<lambda>(k, p). type (role p) = Impostor)
           (players (assignRoles env cands initializeGameState))) = 2"
    and "length (filter (\<lambda>(k, p). type (role p) = Crewmate)
           (players (assignRoles env cands initializeGameState))) = length cands - 2"
    and "list_all (\<lambda>(k, p). isAlive p \<and> inRange (room (role p)))
           (players (assignRoles env cands initializeGameState))"
    and "mset (map fst (players (assignRoles env cands initializeGameState))) = mset cands"
proof -
  define sh where "sh = shuffle env cands"
  have d: "distinct sh" using assms(1,2) mset_eq_imp_distinct_iff sh_def by blast
  have len: "length sh = length cands" using assms(2) mset_eq_length sh_def by blast
  have ps: "players (assignRoles env cands initializeGameState)
            = map (\<lambda>(i, k). (k, newPlayer env i k)) (enumerate 0 sh)"
    by (simp add: assignRoles_def initializeGameState_def sh_def [symmetric] assignRoles_distinct [OF d])
  have imp: "(\<lambda>(k, p). type (role p) = Impostor) \<circ> (\<lambda>(i, k). (k, newPlayer env i k))
             = (\<lambda>(i, k). i < 2)"
    by (auto simp: newPlayer_def fun_eq_iff)
  have crew: "(\<lambda>(k, p). type (role p) = Crewmate) \<circ> (\<lambda>(i, k). (k, newPlayer env i k))
             = (\<lambda>(i, k). \<not> i < 2)"
    by (auto simp: newPlayer_def fun_eq_iff)
  show "length (filter (\<lambda>(k, p). type (role p) = Impostor)
           (players (assignRoles env cands initializeGameState))) = 2"
    using assms(4) len by (simp add: ps filter_map imp count_first)
  show "length (filter (\<lambda>(k, p). type (role p) = Crewmate)
           (players (assignRoles env cands initializeGameState))) = length cands - 2"
    using len by (simp add: ps filter_map crew count_rest)
  show "list_all (\<lambda>(k, p). isAlive p \<and> inRange (room (role p)))
           (players (assignRoles env cands initializeGameState))"
    using assms(3)
    by (auto simp: ps list_all_iff newPlayer_def drawsInUnit_def inRange_draw)
  have "map fst (map (\<lambda>(i, k). (k, newPlayer env i k)) (enumerate 0 sh)) = sh"
    by (simp add: comp_def case_prod_unfold)
  then show "mset (map fst (players (assignRoles env cands initializeGameState))) = mset cands"
    using assms(2) by (simp add: ps sh_def)
qed

section \<open>Helper facts for role assignment and room ranges\<close>

lemma impostors_seats:
  "length (filter (\<lambda>(k, p). type (role p) = t) ps)
   = length (filter (\<lambda>(k, pk, r, a). type r = t) (seats ps))"
  by (induction ps) (auto simp: seats_def)

lemma alive_inRange_seats:
  "list_all (\<lambda>(k, p). isAlive p \<and> inRange (room (role p))) ps
   = list_all (\<lambda>(k, pk, r, a). a \<and> inRange (room r)) (seats ps)"
  by (induction ps) (auto simp: seats_def)

lemma keys_seats: "map fst ps = map fst (seats ps)"
  by (simp add: seats_def case_prod_unfold comp_def)

lemma roomsInRange_resolveVotes: "roomsInRange s \<Longrightarrow> roomsInRange (resolveVotes vr s)"
proof -
  assume a: "roomsInRange s"
  have "map (\<lambda>(k, p). role p) (modify e dead (players s)) = map (\<lambda>(k, p). role p) (players s)" for e
    using roles_exceptAlive [of "modify e dead (players s)"] roles_exceptAlive [of "players s"]
    by (simp add: exceptAlive_modify)
  then show ?thesis using a
    by (simp add: roomsInRange_roles resolveVotes_def ejectPlayer_def split: option.splits)
qed

lemma roomsInRange_broadcast:
  assumes "roomsInRange s"
  shows "\<exists>s'. broadcastGameState env s = Inr s' \<and> roomsInRange s'"
proof -
  obtain s' where s': "broadcastGameState env s = Inr s'" "sameGame s s'"
    using broadcast_total by blast
  have "seats (players s') = seats (players s)" using s'(2) by (simp add: sameGame_def)
  from roomsInRange_seats [OF this] have "roomsInRange s'" using assms by simp
  then show ?thesis using s'(1) by simp
qed

lemma roomsInRange_startRound:
  assumes "roomsInRange s"
  shows "\<exists>s'. startRound env s = Inr s' \<and> roomsInRange s'"
proof -
  obtain s' where s': "startRound env s = Inr s'" "seats (players s') = seats (players s)"
    using startRound_result [of env s] by blast
  have "roomsInRange s'" using assms roomsInRange_seats [OF s'(2)] by simp
  then show ?thesis using s'(1) by simp
qed

lemma roomsInRange_startMovementPhase:
  assumes "roomsInRange s"
  shows "\<exists>s'. startMovementPhase env s = Inr s' \<and> roomsInRange s'"
proof -
  obtain s' where s': "startMovementPhase env s = Inr s'" "seats (players s') = seats (players s)"
    using startMovementPhase_result [of env s] by blast
  have "roomsInRange s'" using assms roomsInRange_seats [OF s'(2)] by simp
  then show ?thesis using s'(1) by simp
qed

lemma roomsInRange_startVotingPhase:
  assumes "roomsInRange s"
  shows "\<exists>s'. startVotingPhase env a s = Inr s' \<and> roomsInRange s'"
proof -
  obtain s' where s': "startVotingPhase env a s = Inr s'" "seats (players s') = seats (players s)"
    using startVotingPhase_result [of env a s] by blast
  have "roomsInRange s'" using assms roomsInRange_seats [OF s'(2)] by simp
  then show ?thesis using s'(1) by simp
qed

lemma roomsInRange_processRound:
  assumes "roomsInRange s"
  shows "\<exists>s'. processRound env s = Inr s' \<and> roomsInRange s'"
proof -
  obtain s' where s': "processRound env s = Inr s'"
    "seats (players s') = seats (players (resolveRound s))"
    using processRound_result [of env s] by blast
  have "roomsInRange s'"
    using roomsInRange_resolveRound [OF assms] roomsInRange_seats [OF s'(2)] by simp
  then show ?thesis using s'(1) by simp
qed

lemma roomsInRange_processVotes:
  assumes "roomsInRange s"
  shows "\<exists>s'. processVotes env s = Inr s' \<and> roomsInRange s'"
proof (cases "votingResults s = None \<or> accusedPlayer s = None \<or> accusedPlayer s = Some []")
  case True
  then have "processVotes env s = Inr s" by (rule processVotes_skipped)
  then show ?thesis using assms by simp
next
  case False
  then obtain vr a where g: "votingResults s = Some vr" "accusedPlayer s = Some a" "a \<noteq> []"
    by auto
  obtain s' where s': "processVotes env s = Inr s'"
    "seats (players s') = seats (players (resolveVotes vr s))"
    using processVotes_result [OF g, of env] by blast
  have "roomsInRange s'"
    using roomsInRange_resolveVotes [OF assms, of vr] roomsInRange_seats [OF s'(2)] by simp
  then show ?thesis using s'(1) by simp
qed

lemma roomsInRange_startGame:
  assumes "roomsInRange s" "drawsInUnit env"
  shows "\<exists>s'. startGame env s = Inr s' \<and> roomsInRange s'"
proof -
  obtain s' where s': "startGame env s = Inr s'"
    "seats (players s') = seats (players (assignRoles env (padBots (activeSubscribers env)) s))"
    using startGame_result [of env s] by blast
  have "roomsInRange s'"
    using roomsInRange_assignRoles [OF assms(2,1)] roomsInRange_seats [OF s'(2)] by simp
  then show ?thesis using s'(1) by simp
qed

section \<open>C1: what the host accepts as a kill\<close>

text \<open>
  C1 says that a kill is accepted only if its target is another participant, alive, in the
  actor's room and not an impostor, whatever the source of the decision. The host does
  not do so. In \<open>twoImpostors\<close> the impostors \<open>a\<close> and \<open>b\<close> share room 2. When
  subscriber \<open>a\<close> answers the action broadcast with a kill on \<open>b\<close>, the host stores the
  kill as it is, and the resolution of the round marks \<open>b\<close> dead; when \<open>a\<close> answers with
  a kill on itself, \<open>a\<close> is marked dead. The participant's own check, \<open>validateAction\<close>,
  refuses both decisions on the view the host sent.
\<close>

theorem C1_impostor_target_accepted:
  "map_sum id (\<lambda>s. map_of (players s) ''a'') (startRound (answering ''a'' (killOf ''b'')) twoImpostors)
     = Inr (Some (snd (act (killOf ''b'') (seat ''a'' Impostor 2 True))))
   \<and> map_sum id aliveFlags (playRound (answering ''a'' (killOf ''b'')) twoImpostors)
     = Inr [(''c'', True), (''a'', True), (''b'', False), (''d'', True)]
   \<and> map_sum id aliveFlags (playRound (answering ''a'' (killOf ''a'')) twoImpostors)
     = Inr [(''c'', True), (''a'', False), (''b'', True), (''d'', True)]
   \<and> validateAction ''kill'' ''b'' (getPlayerView twoImpostors ''a'') = Inr False
   \<and> validateAction ''kill'' ''a'' (getPlayerView twoImpostors ''a'') = Inr False"
  by code_simp

section \<open>C2: a tie at the maximum\<close>

text \<open>
  C2 says that a tie at the maximum count ejects nobody. In \<open>votingTie\<close> the two votes
  go to \<open>b\<close> and to \<open>a\<close>. The tally lists \<open>b\<close> before \<open>a\<close>, the scan for the maximum
  replaces its candidate only on a strictly greater count, and \<open>processVotes\<close> marks
  \<open>b\<close> dead.
\<close>

theorem C2_tie_ejects_first_counted:
  "votingResults votingTie = Some [(''a'', ''b''), (''b'', ''a'')]
   \<and> countVotes [(''a'', ''b''), (''b'', ''a'')] = [(''skip'', 0), (''b'', 1), (''a'', 1)]
   \<and> highestVote [(''skip'', 0), (''b'', 1), (''a'', 1)] = (1, Some ''b'')
   \<and> aliveFlags votingTie = [(''a'', True), (''b'', True), (''c'', True), (''d'', True)]
   \<and> map_sum id aliveFlags (processVotes quietEnv votingTie)
     = Inr [(''a'', True), (''b'', False), (''c'', True), (''d'', True)]"
  by code_simp

section \<open>C4: the phase after an expiry\<close>




section \<open>C5: the votes after the resolution\<close>

text \<open>
  C5, as the claim states it, fails: after \<open>processVotes\<close> on \<open>votingTie\<close> the accused
  player and both votes are still recorded.
\<close>

theorem C5_counterexample:
  "map_sum id voteBook (processVotes quietEnv votingTie)
   = Inr (Some ''a'', Some [(''a'', ''b''), (''b'', ''a'')])"
  by code_simp

text \<open>
  C5 (amended): \<open>processVotes\<close> always returns and leaves \<open>accusedPlayer\<close> and
  \<open>votingResults\<close> as they were. \<open>startVotingPhase\<close> does not depend on the votes
  recorded before: it starts from the empty map, and afterwards the phase is \<open>voting\<close>,
  the accused player is the given one, and every recorded voter is a live player.
\<close>

theorem C5_votes_kept_until_next_vote:
  "(\<exists>s'. processVotes env s = Inr s' \<and> accusedPlayer s' = accusedPlayer s
         \<and> votingResults s' = votingResults s)
   \<and> startVotingPhase env a (s\<lparr>votingResults := old\<rparr>) = startVotingPhase env a s
   \<and> (\<exists>s'. startVotingPhase env a s = Inr s' \<and> phase s' = Voting
         \<and> accusedPlayer s' = Some a \<and> votersAlive s')"
  using processVotes_keeps_votes [of env s] startVotingPhase_result [of env a s]
  by (auto simp: startVotingPhase_def)

theorem C5_votes_kept_until_next_vote_witness:
  "(\<exists>s'. processVotes quietEnv votingTie = Inr s' \<and> accusedPlayer s' = Some ''a''
         \<and> votingResults s' = Some [(''a'', ''b''), (''b'', ''a'')])
   \<and> map_sum id voteBook (startVotingPhase quietEnv ''c'' votingTie) = Inr (Some ''c'', Some [])
   \<and> map_sum id voteBook (startVotingPhase (answering ''b'' (voteFor ''c'')) ''c'' votingTie)
       = Inr (Some ''c'', Some [(''b'', ''c'')])
   \<and> (\<exists>s'. startVotingPhase (answering ''b'' (voteFor ''c'')) ''c'' votingTie = Inr s'
         \<and> phase s' = Voting \<and> accusedPlayer s' = Some ''c'' \<and> votersAlive s')"
proof -
  have a: "accusedPlayer votingTie = Some ''a''"
    "votingResults votingTie = Some [(''a'', ''b''), (''b'', ''a'')]"
    by code_simp+
  have b: "map_sum id voteBook (startVotingPhase quietEnv ''c'' votingTie) = Inr (Some ''c'', Some [])"
    "map_sum id voteBook (startVotingPhase (answering ''b'' (voteFor ''c'')) ''c'' votingTie)
       = Inr (Some ''c'', Some [(''b'', ''c'')])"
    by code_simp+
  show ?thesis
    using a b C5_votes_kept_until_next_vote [of quietEnv votingTie "''a''" None]
      C5_votes_kept_until_next_vote [of "answering ''b'' (voteFor ''c'')" votingTie "''c''" None]
    by auto
qed

section \<open>C6: the decision slots after the resolution\<close>

text \<open>
  C6, as the claim states it, fails: in \<open>midRound\<close> player \<open>a\<close> holds a vote from an
  earlier voting phase, and it is still there after the resolution of the round.
\<close>

theorem C6_counterexample:
  "lastVotes (resolveRound midRound)
   = [(''a'', Some (voteFor ''c'')), (''b'', None), (''c'', None), (''bot-4'', None)]"
  by code_simp

text \<open>
  C6 (amended): after the resolution loops of \<open>processRound\<close> every player's
  \<open>lastAction\<close> and \<open>lastMovement\<close> are absent, and every player's \<open>lastVote\<close> is what
  it was. The vote resolution of \<open>processVotes\<close> changes none of the three slots.
\<close>

theorem C6_action_and_movement_cleared:
  "list_all (\<lambda>(k, p). lastAction p = None \<and> lastMovement p = None) (players (resolveRound s))
   \<and> map (\<lambda>(k, p). lastVote p) (players (resolveRound s)) = map (\<lambda>(k, p). lastVote p) (players s)
   \<and> map (\<lambda>(k, p). (lastAction p, lastMovement p, lastVote p)) (players (resolveVotes vr s))
     = map (\<lambda>(k, p). (lastAction p, lastMovement p, lastVote p)) (players s)"
  using cleared_resolveRound [of s] lastVotes_resolveRound [of s] slots_resolveVotes [of vr s]
  by blast

theorem C6_action_and_movement_cleared_witness:
  "list_all (\<lambda>(k, p). lastAction p = None \<and> lastMovement p = None) (players (resolveRound midRound))
   \<and> map (\<lambda>(k, p). lastVote p) (players (resolveRound midRound))
     = [Some (voteFor ''c''), None, None, None]
   \<and> map (\<lambda>(k, p). lastVote p) (players (resolveVotes [(''b'', ''a'')] midRound))
     = [Some (voteFor ''c''), None, None, None]"
proof -
  have a: "map (\<lambda>(k, p). lastVote p) (players midRound) = [Some (voteFor ''c''), None, None, None]"
    by code_simp
  have b: "map (\<lambda>(k, p). lastVote p) (players (resolveVotes [(''b'', ''a'')] midRound))
     = [Some (voteFor ''c''), None, None, None]"
    by code_simp
  show ?thesis
    using a b C6_action_and_movement_cleared [of midRound "[(''b'', ''a'')]"] by simp
qed

section \<open>C7: two impostors\<close>

text \<open>
  Where the padded candidate list names no key twice, the shuffle returns a permutation
  of it and every draw is a double in \<open>[0, 1)\<close>, \<open>startGame\<close> does what its comments say:
  exactly 2 impostors, the rest crewmates, at least 6 players, all alive and on the ring.
\<close>

lemma startGame_distinct_candidates:
  assumes "distinct (padBots (activeSubscribers env))"
    and "mset (shuffle env (padBots (activeSubscribers env))) = mset (padBots (activeSubscribers env))"
    and "drawsInUnit env"
  shows "\<exists>s'. startGame env initializeGameState = Inr s'
    \<and> length (filter (\<lambda>(k, p). type (role p) = Impostor) (players s')) = 2
    \<and> length (filter (\<lambda>(k, p). type (role p) = Crewmate) (players s')) = length (players s') - 2
    \<and> list_all (\<lambda>(k, p). isAlive p \<and> inRange (room (role p))) (players s')
    \<and> mset (map fst (players s')) = mset (padBots (activeSubscribers env))
    \<and> 6 \<le> length (players s')"
proof -
  define cands where "cands = padBots (activeSubscribers env)"
  define s1 where "s1 = assignRoles env cands initializeGameState"
  have len: "6 \<le> length cands" by (simp add: cands_def padBots_length)
  then have two: "2 \<le> length cands" by simp
  note c = assignRoles_counts [OF assms(1,2,3) [folded cands_def] two, folded s1_def]
  obtain s' where s': "startGame env initializeGameState = Inr s'"
    "seats (players s') = seats (players s1)"
    using startGame_result [of env initializeGameState] by (auto simp: s1_def cands_def)
  have keys: "map fst (players s') = map fst (players s1)"
    using s'(2) keys_seats [of "players s'"] keys_seats [of "players s1"] by simp
  have n: "length (players s') = length cands"
    using arg_cong [OF keys, of length] arg_cong [OF c(4), of size] by simp
  have "length (filter (\<lambda>(k, p). type (role p) = Impostor) (players s')) = 2"
    using c(1) s'(2) by (simp add: impostors_seats)
  moreover have "length (filter (\<lambda>(k, p). type (role p) = Crewmate) (players s')) = length (players s') - 2"
    using c(2) s'(2) n by (simp add: impostors_seats)
  moreover have "list_all (\<lambda>(k, p). isAlive p \<and> inRange (room (role p))) (players s')"
    using c(3) s'(2) by (simp add: alive_inRange_seats)
  moreover have "mset (map fst (players s')) = mset cands"
    using c(4) keys by simp
  ultimately show ?thesis using s'(1) n len by (auto simp: cands_def)
qed

text \<open>
  C7 says that role assignment gives exactly 2 participants the impostor role for any
  candidate list, padded to at least 6 seats. The host misses this for a subscriber list
  that names a key twice. In \<open>twiceListed\<close> the active subscribers are \<open>alice\<close>, \<open>alice\<close>
  and \<open>bob\<close>: padding counts \<open>alice\<close> twice and adds three bots, the second \<open>Map.set\<close>
  for \<open>alice\<close> replaces the first, and with the list left in its order both impostor
  indices go to \<open>alice\<close>. The game starts with 5 players, one of them an impostor.
\<close>

theorem C7_repeated_id_one_impostor:
  "activeSubscribers twiceListed = [''alice'', ''alice'', ''bob'']
   \<and> padBots (activeSubscribers twiceListed)
     = [''alice'', ''alice'', ''bob'', ''bot-4'', ''bot-5'', ''bot-6'']
   \<and> map_sum id seatKeys (startGame twiceListed initializeGameState)
     = Inr [''alice'', ''bob'', ''bot-4'', ''bot-5'', ''bot-6'']
   \<and> map_sum id impostorSeats (startGame twiceListed initializeGameState) = Inr [''alice'']"
  by code_simp

section \<open>C8: rooms stay on the ring\<close>

lemma room_applyMovement_alive:
  "room (role (applyMovement (p\<lparr>isAlive := a\<rparr>))) = room (role (applyMovement p))"
  by (simp add: applyMovement_def setRoom_def split: option.splits)

lemma rooms_after_kills:
  "map (\<lambda>(k, p). (k, room (role (applyMovement p)))) (processKills ps)
   = map (\<lambda>(k, p). (k, room (role (applyMovement p)))) ps"
proof -
  have g: "map (\<lambda>(k, p). (k, room (role (applyMovement p)))) qs
         = map (\<lambda>(k, p). (k, room (role (applyMovement p)))) (exceptAlive qs)" for qs
    by (simp add: exceptAlive_def case_prod_unfold comp_def room_applyMovement_alive)
  show ?thesis
    using g [of "processKills ps"] g [of ps] by (simp add: exceptAlive_processKills)
qed

lemma rooms_resolveRound:
  "rooms (resolveRound s) = map (\<lambda>(k, p). (k, room (role (applyMovement p)))) (players s)"
proof -
  have "rooms (resolveRound s)
      = map (\<lambda>(k, p). (k, room (role (applyMovement p)))) (processKills (players s))"
    by (simp add: rooms_def resolveRound_def clearRecords_def processMovements_def
        case_prod_unfold comp_def)
  then show ?thesis by (simp add: rooms_after_kills)
qed

lemma ringMove_applyMovement:
  "inRange (room (role p)) \<Longrightarrow> room (role (applyMovement p)) = ringMove p"
  by (simp add: room_applyMovement ringMove_def)

lemma rooms_resolveRound_ring:
  assumes "roomsInRange s"
  shows "rooms (resolveRound s) = map (\<lambda>(k, p). (k, ringMove p)) (players s)"
proof -
  have "map (\<lambda>(k, p). (k, room (role (applyMovement p)))) (players s)
      = map (\<lambda>(k, p). (k, ringMove p)) (players s)"
    using assms
    by (intro map_cong refl) (auto simp: roomsInRange_def list_all_iff ringMove_applyMovement)
  then show ?thesis by (simp add: rooms_resolveRound)
qed

lemma rooms_seats: "rooms s = map (\<lambda>(k, pk, r, a). (k, room r)) (seats (players s))"
  by (simp add: rooms_def seats_def case_prod_unfold comp_def)

lemma roomsInRange_rooms: "roomsInRange s = list_all (\<lambda>(k, r). inRange r) (rooms s)"
  by (simp add: roomsInRange_def rooms_def list_all_iff case_prod_unfold)

lemma rooms_resolveVotes: "rooms (resolveVotes vr s) = rooms s"
proof -
  have g: "map (\<lambda>(k, p). (k, room (role p))) qs
         = map (\<lambda>(k, p). (k, room (role p))) (exceptAlive qs)" for qs
    by (simp add: exceptAlive_def case_prod_unfold comp_def)
  have "map (\<lambda>(k, p). (k, room (role p))) (modify e dead (players s))
      = map (\<lambda>(k, p). (k, room (role p))) (players s)" for e
    using g [of "modify e dead (players s)"] g [of "players s"]
    by (simp add: exceptAlive_modify)
  then show ?thesis
    by (simp add: rooms_def resolveVotes_def ejectPlayer_def split: option.splits)
qed

lemma rooms_broadcast: "\<exists>s'. broadcastGameState env s = Inr s' \<and> rooms s' = rooms s"
proof -
  obtain s' where s': "broadcastGameState env s = Inr s'" "sameGame s s'"
    using broadcast_total by blast
  have "seats (players s') = seats (players s)" using s'(2) by (simp add: sameGame_def)
  then have "rooms s' = rooms s" by (simp add: rooms_seats)
  then show ?thesis using s'(1) by simp
qed

lemma rooms_startRound: "\<exists>s'. startRound env s = Inr s' \<and> rooms s' = rooms s"
proof -
  obtain s' where s': "startRound env s = Inr s'" "seats (players s') = seats (players s)"
    using startRound_result [of env s] by blast
  have "rooms s' = rooms s" using s'(2) by (simp add: rooms_seats)
  then show ?thesis using s'(1) by simp
qed

lemma rooms_startMovementPhase: "\<exists>s'. startMovementPhase env s = Inr s' \<and> rooms s' = rooms s"
proof -
  obtain s' where s': "startMovementPhase env s = Inr s'" "seats (players s') = seats (players s)"
    using startMovementPhase_result [of env s] by blast
  have "rooms s' = rooms s" using s'(2) by (simp add: rooms_seats)
  then show ?thesis using s'(1) by simp
qed

lemma rooms_startVotingPhase: "\<exists>s'. startVotingPhase env a s = Inr s' \<and> rooms s' = rooms s"
proof -
  obtain s' where s': "startVotingPhase env a s = Inr s'" "seats (players s') = seats (players s)"
    using startVotingPhase_result [of env a s] by blast
  have "rooms s' = rooms s" using s'(2) by (simp add: rooms_seats)
  then show ?thesis using s'(1) by simp
qed

lemma rooms_processVotes: "\<exists>s'. processVotes env s = Inr s' \<and> rooms s' = rooms s"
proof (cases "votingResults s = None \<or> accusedPlayer s = None \<or> accusedPlayer s = Some []")
  case True
  then have "processVotes env s = Inr s" by (rule processVotes_skipped)
  then show ?thesis by simp
next
  case False
  then obtain vr a where g: "votingResults s = Some vr" "accusedPlayer s = Some a" "a \<noteq> []"
    by auto
  obtain s' where s': "processVotes env s = Inr s'"
    "seats (players s') = seats (players (resolveVotes vr s))"
    using processVotes_result [OF g, of env] by blast
  have "rooms s' = rooms (resolveVotes vr s)" using s'(2) by (simp add: rooms_seats)
  then show ?thesis using s'(1) by (simp add: rooms_resolveVotes)
qed

lemma rooms_processRound:
  "\<exists>s'. processRound env s = Inr s'
     \<and> rooms s' = map (\<lambda>(k, p). (k, room (role (applyMovement p)))) (players s)"
proof -
  obtain s' where s': "processRound env s = Inr s'"
    "seats (players s') = seats (players (resolveRound s))"
    using processRound_result [of env s] by blast
  have "rooms s' = rooms (resolveRound s)" using s'(2) by (simp add: rooms_seats)
  then show ?thesis using s'(1) by (simp add: rooms_resolveRound)
qed

lemma kept_rooms_in_range:
  assumes "roomsInRange s" "\<exists>s'. f = Inr s' \<and> rooms s' = rooms s"
  shows "\<exists>s'. f = Inr s' \<and> rooms s' = rooms s \<and> roomsInRange s'"
proof -
  obtain s' where s': "f = Inr s'" "rooms s' = rooms s" using assms(2) by blast
  have "roomsInRange s'" using assms(1) s'(2) by (simp add: roomsInRange_rooms)
  then show ?thesis using s' by simp
qed

lemma processRound_moves:
  assumes "roomsInRange s"
  shows "\<exists>s'. processRound env s = Inr s'
     \<and> rooms s' = map (\<lambda>(k, p). (k, ringMove p)) (players s) \<and> roomsInRange s'"
proof -
  obtain s' where s': "processRound env s = Inr s'"
    "rooms s' = map (\<lambda>(k, p). (k, room (role (applyMovement p)))) (players s)"
    using rooms_processRound by blast
  have r: "rooms s' = rooms (resolveRound s)" using s'(2) by (simp add: rooms_resolveRound)
  have "roomsInRange s'"
    using roomsInRange_resolveRound [OF assms] r by (simp add: roomsInRange_rooms)
  then show ?thesis using s'(1) r rooms_resolveRound_ring [OF assms] by simp
qed

text \<open>
  C8: for a player in a room from 0 to 5, a clockwise movement leads to room
  \<open>(room + 1) mod 6\<close>, a counterclockwise one to \<open>(room - 1) mod 6\<close>, any other or no
  movement leaves the room, and the room stays in range after one movement and after any
  sequence of movements. A player with no movement or with movement \<open>stay\<close> is unchanged.
  The resolution of a round gives every player the room that the player's own movement
  leads to; with all rooms in range that is the room of \<open>ringMove\<close>, and these are the
  rooms after \<open>processRound\<close>. The initial state has all rooms in range, and every
  operation of the host keeps it so: the resolution of a round; the resolution of a
  vote, the win check, the collection of decisions, the starts of the three phases and
  \<open>processVotes\<close>, which leave every room as it is; and, for draws that are doubles in
  \<open>[0, 1)\<close>, \<open>assignRoles\<close> and \<open>startGame\<close>.
\<close>

theorem C8_rooms_stay_in_range:
  "(inRange (room (role p)) \<longrightarrow>
      room (role (applyMovement p))
        = (case lastMovement p of
             None \<Rightarrow> room (role p)
           | Some m \<Rightarrow>
               if type_d m = Str ''clockwise'' then (room (role p) + 1) mod 6
               else if type_d m = Str ''counterclockwise'' then (room (role p) - 1) mod 6
               else room (role p))
      \<and> inRange (room (role (applyMovement p)))
      \<and> inRange (room (role (fold (\<lambda>m q. applyMovement (q\<lparr>lastMovement := m\<rparr>)) ms p))))
   \<and> (lastMovement p = None \<or> (\<exists>m. lastMovement p = Some m \<and> type_d m = Str ''stay'')
        \<longrightarrow> applyMovement p = p)
   \<and> rooms (resolveRound s) = map (\<lambda>(k, p). (k, room (role (applyMovement p)))) (players s)
   \<and> roomsInRange initializeGameState
   \<and> (roomsInRange s \<longrightarrow>
        rooms (resolveRound s) = map (\<lambda>(k, p). (k, ringMove p)) (players s)
        \<and> roomsInRange (resolveRound s)
        \<and> (\<exists>s'. processRound env s = Inr s'
              \<and> rooms s' = map (\<lambda>(k, p). (k, ringMove p)) (players s) \<and> roomsInRange s')
        \<and> rooms (resolveVotes vr s) = rooms s \<and> roomsInRange (resolveVotes vr s)
        \<and> rooms (checkWinCondition s) = rooms s \<and> roomsInRange (checkWinCondition s)
        \<and> (\<exists>s'. broadcastGameState env s = Inr s' \<and> rooms s' = rooms s \<and> roomsInRange s')
        \<and> (\<exists>s'. startRound env s = Inr s' \<and> rooms s' = rooms s \<and> roomsInRange s')
        \<and> (\<exists>s'. startMovementPhase env s = Inr s' \<and> rooms s' = rooms s \<and> roomsInRange s')
        \<and> (\<exists>s'. startVotingPhase env a s = Inr s' \<and> rooms s' = rooms s \<and> roomsInRange s')
        \<and> (\<exists>s'. processVotes env s = Inr s' \<and> rooms s' = rooms s \<and> roomsInRange s')
        \<and> (drawsInUnit env \<longrightarrow>
             roomsInRange (assignRoles env cands s)
             \<and> (\<exists>s'. startGame env s = Inr s' \<and> roomsInRange s')))"
proof (intro conjI impI)
  show "roomsInRange initializeGameState"
    by (simp add: roomsInRange_def initializeGameState_def)
  show "rooms (resolveRound s) = map (\<lambda>(k, p). (k, room (role (applyMovement p)))) (players s)"
    by (rule rooms_resolveRound)
  show "rooms (checkWinCondition s) = rooms s"
    by (simp add: rooms_def rest_checkWinCondition)
  show "roomsInRange (checkWinCondition s)" if "roomsInRange s"
    using that by (simp add: roomsInRange_def rest_checkWinCondition)
  show "room (role (applyMovement p))
        = (case lastMovement p of
             None \<Rightarrow> room (role p)
           | Some m \<Rightarrow>
               if type_d m = Str ''clockwise'' then (room (role p) + 1) mod 6
               else if type_d m = Str ''counterclockwise'' then (room (role p) - 1) mod 6
               else room (role p))" if "inRange (room (role p))"
    using that by (rule room_applyMovement)
  show "inRange (room (role (applyMovement p)))" if "inRange (room (role p))"
    using that by (rule inRange_applyMovement)
  show "inRange (room (role (fold (\<lambda>m q. applyMovement (q\<lparr>lastMovement := m\<rparr>)) ms p)))"
    if "inRange (room (role p))"
    using that by (rule inRange_movement_sequence)
  show "applyMovement p = p"
    if "lastMovement p = None \<or> (\<exists>m. lastMovement p = Some m \<and> type_d m = Str ''stay'')"
    using that by (rule stay_applyMovement)
  show "rooms (resolveRound s) = map (\<lambda>(k, p). (k, ringMove p)) (players s)" if "roomsInRange s"
    using that by (rule rooms_resolveRound_ring)
  show "roomsInRange (resolveRound s)" if "roomsInRange s"
    using that by (rule roomsInRange_resolveRound)
  show "\<exists>s'. processRound env s = Inr s'
      \<and> rooms s' = map (\<lambda>(k, p). (k, ringMove p)) (players s) \<and> roomsInRange s'"
    if "roomsInRange s"
    using that by (rule processRound_moves)
  show "rooms (resolveVotes vr s) = rooms s"
    by (rule rooms_resolveVotes)
  show "roomsInRange (resolveVotes vr s)" if "roomsInRange s"
    using that by (rule roomsInRange_resolveVotes)
  show "\<exists>s'. broadcastGameState env s = Inr s' \<and> rooms s' = rooms s \<and> roomsInRange s'"
    if "roomsInRange s"
    using that rooms_broadcast by (rule kept_rooms_in_range)
  show "\<exists>s'. startRound env s = Inr s' \<and> rooms s' = rooms s \<and> roomsInRange s'"
    if "roomsInRange s"
    using that rooms_startRound by (rule kept_rooms_in_range)
  show "\<exists>s'. startMovementPhase env s = Inr s' \<and> rooms s' = rooms s \<and> roomsInRange s'"
    if "roomsInRange s"
    using that rooms_startMovementPhase by (rule kept_rooms_in_range)
  show "\<exists>s'. startVotingPhase env a s = Inr s' \<and> rooms s' = rooms s \<and> roomsInRange s'"
    if "roomsInRange s"
    using that rooms_startVotingPhase by (rule kept_rooms_in_range)
  show "\<exists>s'. processVotes env s = Inr s' \<and> rooms s' = rooms s \<and> roomsInRange s'"
    if "roomsInRange s"
    using that rooms_processVotes by (rule kept_rooms_in_range)
  show "roomsInRange (assignRoles env cands s)" if "roomsInRange s" "drawsInUnit env"
    using that(2,1) by (rule roomsInRange_assignRoles)
  show "\<exists>s'. startGame env s = Inr s' \<and> roomsInRange s'" if "roomsInRange s" "drawsInUnit env"
    using that by (rule roomsInRange_startGame)
qed

theorem C8_rooms_stay_in_range_witness:
  "inRange (room (role (snd (move ''clockwise'' (seat ''a'' Impostor 5 True)))))
   \<and> room (role (applyMovement (snd (move ''clockwise'' (seat ''a'' Impostor 5 True))))) = 0
   \<and> inRange (room (role (snd (move ''counterclockwise'' (seat ''b'' Crewmate 0 True)))))
   \<and> room (role (applyMovement (snd (move ''counterclockwise'' (seat ''b'' Crewmate 0 True))))) = 5
   \<and> applyMovement (snd (move ''stay'' (seat ''c'' Crewmate 0 True)))
       = snd (move ''stay'' (seat ''c'' Crewmate 0 True))
   \<and> roomsInRange midRound \<and> drawsInUnit reversing
   \<and> rooms midRound = [(''a'', 5), (''b'', 5), (''c'', 0), (''bot-4'', 3)]
   \<and> rooms (resolveRound midRound) = [(''a'', 0), (''b'', 4), (''c'', 0), (''bot-4'', 3)]
   \<and> roomsInRange (resolveRound midRound)
   \<and> (\<exists>s'. processRound reversing midRound = Inr s'
         \<and> rooms s' = [(''a'', 0), (''b'', 4), (''c'', 0), (''bot-4'', 3)] \<and> roomsInRange s')
   \<and> (\<exists>s'. processVotes reversing midRound = Inr s' \<and> rooms s' = rooms midRound
         \<and> roomsInRange s')
   \<and> (\<exists>s'. startGame reversing midRound = Inr s' \<and> roomsInRange s')"
proof -
  let ?cw = "snd (move ''clockwise'' (seat ''a'' Impostor 5 True))"
  let ?ccw = "snd (move ''counterclockwise'' (seat ''b'' Crewmate 0 True))"
  let ?stay = "snd (move ''stay'' (seat ''c'' Crewmate 0 True))"
  have cw: "inRange (room (role ?cw))"
    "lastMovement ?cw = Some (decision (Str ''clockwise'') Undefined None)" "room (role ?cw) = 5"
    by (simp_all add: move_def seat_def inRange_def)
  have ccw: "inRange (room (role ?ccw))"
    "lastMovement ?ccw = Some (decision (Str ''counterclockwise'') Undefined None)"
    "room (role ?ccw) = 0"
    by (simp_all add: move_def seat_def inRange_def)
  have stay: "\<exists>m. lastMovement ?stay = Some m \<and> type_d m = Str ''stay''"
    by (simp add: move_def seat_def decision_def)
  have s: "roomsInRange midRound"
    by code_simp
  have d: "drawsInUnit reversing"
    by (simp add: drawsInUnit_def reversing_def quietEnv_def isDouble_half)
  have r: "rooms midRound = [(''a'', 5), (''b'', 5), (''c'', 0), (''bot-4'', 3)]"
    "map (\<lambda>(k, p). (k, ringMove p)) (players midRound)
       = [(''a'', 0), (''b'', 4), (''c'', 0), (''bot-4'', 3)]"
    by code_simp+
  show ?thesis
    using cw ccw stay s d r
      C8_rooms_stay_in_range [where p = "?cw" and ms = "[]" and s = midRound and vr = "[]"
        and env = reversing and a = "''a''" and cands = "[]"]
      C8_rooms_stay_in_range [where p = "?ccw" and ms = "[]" and s = midRound and vr = "[]"
        and env = reversing and a = "''a''" and cands = "[]"]
      C8_rooms_stay_in_range [where p = "?stay" and ms = "[]" and s = midRound and vr = "[]"
        and env = reversing and a = "''a''" and cands = "[]"]
    by (simp add: decision_def)
qed


section \<open>C10: an impostor bot never kills\<close>

text \<open>
  C10: in the view of a player who is an impostor every player record carries a role, so
  no record passes the bot's filter for targets. In the action phase the bot's decision
  is \<open>pass\<close> for all random draws, and for a live bot the host stores \<open>pass\<close> as its
  \<open>lastAction\<close>.
\<close>

theorem C10_impostor_bot_passes:
  assumes "map_of (players s) k = Some p" and "type (role p) = Impostor"
  shows "list_all (\<lambda>pv. role_v pv \<noteq> None) (players_v (getPlayerView s k))
    \<and> filter (\<lambda>pv. isAlive_v pv \<and> room_v pv = room (role p) \<and> role_v pv = None)
         (players_v (getPlayerView s k)) = []
    \<and> (phase s = Action \<longrightarrow>
         makeBotDecision (getPlayerView s k) u1 u2 = Inr pass
         \<and> (take 4 k = ''bot-'' \<and> isAlive p \<longrightarrow>
              botStep env s k
              = Inr (s\<lparr>players := modify k (\<lambda>q. q\<lparr>lastAction := Some pass\<rparr>) (players s)\<rparr>)))"
proof -
  note nt = no_targets_for_impostor [OF assms, of "room (role p)"]
  have d: "makeBotDecision (getPlayerView s k) u1 u2 = Inr pass" if "phase s = Action" for u1 u2
    using nt assms(1) that by (simp add: makeBotDecision_def view_yourRole view_phase pass_def)
  have "botStep env s k
      = Inr (s\<lparr>players := modify k (\<lambda>q. q\<lparr>lastAction := Some pass\<rparr>) (players s)\<rparr>)"
    if "phase s = Action" "take 4 k = ''bot-''" "isAlive p"
    using that assms(1) d [OF that(1)] by (simp add: botStep_def storeBotDecision_def)
  with nt view_roles_present [OF assms] d show ?thesis by blast
qed

theorem C10_impostor_bot_passes_witness:
  "map_of (players botImpostor) ''bot-1'' = Some (snd (seat ''bot-1'' Impostor 2 True))
   \<and> type (role (snd (seat ''bot-1'' Impostor 2 True))) = Impostor
   \<and> phase botImpostor = Action \<and> take 4 ''bot-1'' = ''bot-'' \<and> isAlive (snd (seat ''bot-1'' Impostor 2 True))
   \<and> list_all (\<lambda>pv. role_v pv \<noteq> None) (players_v (getPlayerView botImpostor ''bot-1''))
   \<and> makeBotDecision (getPlayerView botImpostor ''bot-1'') 0 0 = Inr pass
   \<and> botStep quietEnv botImpostor ''bot-1''
       = Inr (botImpostor\<lparr>players := modify ''bot-1'' (\<lambda>q. q\<lparr>lastAction := Some pass\<rparr>) (players botImpostor)\<rparr>)"
proof -
  have a: "map_of (players botImpostor) ''bot-1'' = Some (snd (seat ''bot-1'' Impostor 2 True))"
    by (simp add: botImpostor_def seat_def)
  have b: "type (role (snd (seat ''bot-1'' Impostor 2 True))) = Impostor"
    by (simp add: seat_def)
  have c: "phase botImpostor = Action \<and> take 4 ''bot-1'' = ''bot-''
     \<and> isAlive (snd (seat ''bot-1'' Impostor 2 True))"
    by (simp add: botImpostor_def initializeGameState_def seat_def)
  show ?thesis
    using a b c C10_impostor_bot_passes [OF a b, of 0 0 quietEnv] by blast
qed

end
